theory Spec2Isabelle
  imports Main "HOL-Library.Word" "HOL-Library.Countable"
begin


section \<open>The PEM codec\<close>

text \<open>
  The key manager turns the bytes of an exported key into PEM text:
  \<^verbatim>\<open>
  function toPEM(buffer: ArrayBuffer, label: string): string {
    const base64 = btoa(String.fromCharCode(...new Uint8Array(buffer)))
                     .replace(/(.{64})/g, '$1\n').trim()
    return `-----BEGIN ${label}-----\n${base64}\n-----END ${label}-----\n`
  }
  \<close>
  A buffer is a list of bytes. A string is a list of \<^typ>\<open>char\<close>, read as code units
  below 256: every string this function builds (a binary string, base64 text) stays in
  that range. The platform functions \<open>String.fromCharCode\<close>, \<open>btoa\<close>,
  \<open>String.prototype.replace\<close> with this one pattern and \<open>String.prototype.trim\<close> are
  written out as they are specified (RFC 4648 for base64, ECMA-262 for the two string
  methods).
\<close>

type_synonym byte = "8 word"

abbreviation LF :: char where
  "LF \<equiv> CHR 0x0A"

text \<open>
  What the program can throw: an error of the Deno file system, a \<open>DOMException\<close> of
  the cryptographic primitive, the \<open>SyntaxError\<close> of \<open>JSON.parse\<close> and the \<open>RangeError\<close>
  of a call with too many arguments. \<open>Unmodelled_shape\<close> is where the model stops: on
  a loaded value that is not the tree of a store (see \<open>createNewKeyPair\<close> below).
\<close>

datatype error =
    Deno_error string
  | DOMException string
  | SyntaxError
  | RangeError
  | Unmodelled_shape

text \<open>
  \<open>String.fromCharCode(...new Uint8Array(buffer))\<close> spreads the buffer: every byte is
  one argument of the call. An engine takes only so many arguments in one call (how
  many depends on the engine and on the stack that is left) and throws a \<open>RangeError\<close>
  when there are more. That number is the parameter \<open>limit\<close>. When the call goes
  through, the result is the binary string: one code unit for each byte.
\<close>

definition binary_string :: "byte list \<Rightarrow> string" where
  "binary_string bs = map (\<lambda>b. char_of (unat b)) bs"

definition fromCharCode :: "nat \<Rightarrow> byte list \<Rightarrow> error + string" where
  "fromCharCode limit bs = (if limit < length bs then Inl RangeError else Inr (binary_string bs))"

definition b64_alphabet :: string where
  "b64_alphabet = ''ABCDEFGHIJKLMNOPQRSTUVWXYZabcdefghijklmnopqrstuvwxyz0123456789+/''"

definition b64_char :: "nat \<Rightarrow> char" where
  "b64_char i = b64_alphabet ! i"

definition code_unit :: "char \<Rightarrow> nat" where
  "code_unit c = of_char c"

text \<open>
  \<open>btoa\<close>: three code units make four base64 characters; a last group of one or two
  code units is padded with \<open>=\<close>. On a code unit above 255 \<open>btoa\<close> throws; a
  \<^typ>\<open>char\<close> is never above 255, and neither is a code unit made from a byte.
\<close>

fun btoa :: "string \<Rightarrow> string" where
  "btoa [] = []"
| "btoa [a] =
     [b64_char (code_unit a div 4), b64_char (code_unit a mod 4 * 16), CHR ''='', CHR ''='']"
| "btoa [a, b] =
     [b64_char (code_unit a div 4),
      b64_char (code_unit a mod 4 * 16 + code_unit b div 16),
      b64_char (code_unit b mod 16 * 4), CHR ''='']"
| "btoa (a # b # c # rest) =
     [b64_char (code_unit a div 4),
      b64_char (code_unit a mod 4 * 16 + code_unit b div 16),
      b64_char (code_unit b mod 16 * 4 + code_unit c div 64),
      b64_char (code_unit c mod 64)] @ btoa rest"

text \<open>
  \<open>.replace(/(.{64})/g, '$1\n')\<close>: the pattern matches 64 characters none of which is a
  line terminator; the search goes left to right, a match is copied with a line feed
  after it and the search goes on behind the match, and where no match starts the
  character is copied and the search moves on by one. (Of the four line terminators of
  the language, line feed and carriage return are code units below 256.)
\<close>

definition line_terminator :: "char \<Rightarrow> bool" where
  "line_terminator c = (c = LF \<or> c = CHR 0x0D)"

function replace_64 :: "string \<Rightarrow> string" where
  "replace_64 s =
     (if 64 \<le> length s \<and> list_all (\<lambda>c. \<not> line_terminator c) (take 64 s)
      then take 64 s @ [LF] @ replace_64 (drop 64 s)
      else (case s of [] \<Rightarrow> [] | c # cs \<Rightarrow> c # replace_64 cs))"
  by pat_completeness auto
termination
  by (relation "measure length") auto

text \<open>\<open>.trim()\<close> removes the white space and the line terminators at both ends.\<close>

definition white_space :: "char \<Rightarrow> bool" where
  "white_space c = (code_unit c \<in> {9, 10, 11, 12, 13, 32, 160})"

definition trim :: "string \<Rightarrow> string" where
  "trim s = rev (dropWhile white_space (rev (dropWhile white_space s)))"

text \<open>
  The shape of the result, for stating what \<open>toPEM\<close> returns: a text cut into pieces of
  \<open>n\<close> characters (the last one shorter when the length is no multiple of \<open>n\<close>), and
  pieces joined with a separator between them (\<open>Array.prototype.join\<close>).
\<close>

function chunks :: "nat \<Rightarrow> 'a list \<Rightarrow> 'a list list" where
  "chunks n xs = (if n = 0 \<or> xs = [] then [] else take n xs # chunks n (drop n xs))"
  by pat_completeness auto
termination
  by (relation "measure (\<lambda>(n, xs). length xs)") auto

fun join_with :: "'a list \<Rightarrow> 'a list list \<Rightarrow> 'a list" where
  "join_with sep [] = []"
| "join_with sep [x] = x"
| "join_with sep (x # y # ys) = x @ sep @ join_with sep (y # ys)"

text \<open>
  \<open>toPEM\<close>, with the engine's limit as its first argument: the \<open>RangeError\<close> of the
  spread call leaves the function; otherwise the text is built from the binary string.
\<close>

definition toPEM :: "nat \<Rightarrow> byte list \<Rightarrow> string \<Rightarrow> error + string" where
  "toPEM limit buffer label =
     (case fromCharCode limit buffer of
        Inl e \<Rightarrow> Inl e
      | Inr binary \<Rightarrow>
          (let base64 = trim (replace_64 (btoa binary))
           in Inr (''-----BEGIN '' @ label @ ''-----'' @ [LF] @ base64 @ [LF] @
                   ''-----END '' @ label @ ''-----'' @ [LF])))"

subsection \<open>The reference decoder\<close>

text \<open>
  The source has no decoder. The one below is the reference the round trip is stated
  against: the text is cut into lines at the line feeds, the first line must be
  \<open>-----BEGIN label-----\<close>, the last line (before the final line feed, when there is
  one) must be \<open>-----END label-----\<close> with the same label, and the lines between are
  concatenated and decoded as base64.
\<close>

datatype pem_error = MalformedPemError

definition b64_value :: "char \<Rightarrow> nat option" where
  "b64_value c = map_of (zip b64_alphabet [0..<64]) c"

fun base64_decode :: "string \<Rightarrow> string option" where
  "base64_decode [] = Some []"
| "base64_decode (a # b # c # d # rest) =
     (if rest = [] \<and> c = CHR ''='' \<and> d = CHR ''='' then
        (case (b64_value a, b64_value b) of
           (Some x, Some y) \<Rightarrow> Some [char_of (x * 4 + y div 16)]
         | _ \<Rightarrow> None)
      else if rest = [] \<and> d = CHR ''='' then
        (case (b64_value a, b64_value b, b64_value c) of
           (Some x, Some y, Some z) \<Rightarrow>
             Some [char_of (x * 4 + y div 16), char_of (y mod 16 * 16 + z div 4)]
         | _ \<Rightarrow> None)
      else
        (case (b64_value a, b64_value b, b64_value c, b64_value d) of
           (Some x, Some y, Some z, Some u) \<Rightarrow>
             (case base64_decode rest of
                Some bin \<Rightarrow>
                  Some (char_of (x * 4 + y div 16) # char_of (y mod 16 * 16 + z div 4) #
                        char_of (z mod 4 * 64 + u) # bin)
              | None \<Rightarrow> None)
         | _ \<Rightarrow> None))"
| "base64_decode _ = None"

fun split_lines :: "string \<Rightarrow> string list" where
  "split_lines [] = [[]]"
| "split_lines (c # cs) =
     (if c = LF then [] # split_lines cs
      else (case split_lines cs of
              [] \<Rightarrow> [[c]]
            | l # ls \<Rightarrow> (c # l) # ls))"

definition strip_affixes :: "string \<Rightarrow> string \<Rightarrow> string \<Rightarrow> string option" where
  "strip_affixes pre suf l =
     (if length pre + length suf \<le> length l \<and> take (length pre) l = pre \<and>
         drop (length l - length suf) l = suf
      then Some (take (length l - length pre - length suf) (drop (length pre) l))
      else None)"

text \<open>
  \<open>pem_decode\<close> follows the spec's words for the decode operation ("strip delimiters,
  concatenate lines, base64-decode", failing with a \<open>MalformedPemError\<close> "when the
  delimiter labels do not match or the base64 body is invalid"); it is compared with
  the source's \<open>toPEM\<close>.
\<close>

definition pem_decode :: "string \<Rightarrow> pem_error + byte list" where
  "pem_decode pemText =
     (case split_lines pemText of
        [] \<Rightarrow> Inl MalformedPemError
      | first # rest \<Rightarrow>
          (let rest' = (if rest \<noteq> [] \<and> last rest = [] then butlast rest else rest) in
           if rest' = [] then Inl MalformedPemError
           else
             (case (strip_affixes ''-----BEGIN '' ''-----'' first,
                    strip_affixes ''-----END '' ''-----'' (last rest')) of
                (Some l1, Some l2) \<Rightarrow>
                  (if l1 \<noteq> l2 then Inl MalformedPemError
                   else (case base64_decode (concat (butlast rest')) of
                           None \<Rightarrow> Inl MalformedPemError
                         | Some bin \<Rightarrow> Inr (map (\<lambda>c. word_of_nat (code_unit c)) bin)))
              | _ \<Rightarrow> Inl MalformedPemError)))"

subsection \<open>Notions used in the proofs\<close>

text \<open>
  A character that is neither white space nor a line terminator; every character of
  base64 text is one. \<open>trim_end\<close> is the half of \<open>trim\<close> that works at the end.
\<close>

definition plain :: "char \<Rightarrow> bool" where
  "plain c = (\<not> white_space c \<and> \<not> line_terminator c \<and> c \<noteq> LF)"

definition trim_end :: "string \<Rightarrow> string" where
  "trim_end s = rev (dropWhile white_space (rev s))"

text \<open>
  \<open>pem_text buffer label\<close> is the text \<open>toPEM\<close> returns for a buffer that the engine
  takes (the limit is then at least the length of the buffer).
\<close>

definition pem_text :: "byte list \<Rightarrow> string \<Rightarrow> string" where
  "pem_text buffer label =
     (case toPEM (length buffer) buffer label of Inr pemText \<Rightarrow> pemText | Inl e \<Rightarrow> [])"

section \<open>The key store manager\<close>

subsection \<open>Values\<close>

text \<open>
  \<^verbatim>\<open>
  interface KeyPair  { privateKey: string; publicKey: string; createdAt: string; version: number }
  interface KeyStore { currentVersion: number; keys: KeyPair[] }
  \<close>
  A version is a \<open>number\<close>. The model takes the integral numbers, as unbounded integers:
  the source's \<open>currentVersion + 1\<close> on IEEE doubles is the integer successor on every
  integer below \<open>2^53\<close>, and the theorems are about versions in that range.

  TypeScript's types are erased when the program runs: what \<open>JSON.parse\<close> returns is any
  JSON value, whatever the declared type says. So a loaded store is a \<open>json\<close> value, and
  \<open>asKeyStore\<close> reads it as a \<open>KeyStore\<close> when it is the tree of one (the same fields in
  the same order, as \<open>JSON.stringify\<close> writes them).
\<close>

datatype json =
    JNull
  | JBool bool
  | JNum int
  | JStr string
  | JArr "json list"
  | JObj "(string \<times> json) list"

instance json :: countable
  by countable_datatype

record KeyPair =
  privateKey :: string
  publicKey :: string
  createdAt :: string
  version :: int

record KeyStore =
  currentVersion :: int
  keys :: "KeyPair list"

definition json_of_KeyPair :: "KeyPair \<Rightarrow> json" where
  "json_of_KeyPair k =
     JObj [(''privateKey'', JStr (privateKey k)), (''publicKey'', JStr (publicKey k)),
           (''createdAt'', JStr (createdAt k)), (''version'', JNum (version k))]"

definition json_of_KeyStore :: "KeyStore \<Rightarrow> json" where
  "json_of_KeyStore ks =
     JObj [(''currentVersion'', JNum (currentVersion ks)),
           (''keys'', JArr (map json_of_KeyPair (keys ks)))]"

fun KeyPair_of_members :: "(string \<times> json) list \<Rightarrow> KeyPair option" where
  "KeyPair_of_members [(n1, JStr a), (n2, JStr b), (n3, JStr c), (n4, JNum v)] =
     (if n1 = ''privateKey'' \<and> n2 = ''publicKey'' \<and> n3 = ''createdAt'' \<and> n4 = ''version''
      then Some \<lparr>privateKey = a, publicKey = b, createdAt = c, version = v\<rparr>
      else None)"
| "KeyPair_of_members _ = None"

definition asKeyPair :: "json \<Rightarrow> KeyPair option" where
  "asKeyPair j = (case j of JObj members \<Rightarrow> KeyPair_of_members members | _ \<Rightarrow> None)"

fun KeyStore_of_members :: "(string \<times> json) list \<Rightarrow> KeyStore option" where
  "KeyStore_of_members [(n1, JNum v), (n2, JArr elems)] =
     (if n1 = ''currentVersion'' \<and> n2 = ''keys''
      then (case those (map asKeyPair elems) of
              Some kps \<Rightarrow> Some \<lparr>currentVersion = v, keys = kps\<rparr>
            | None \<Rightarrow> None)
      else None)"
| "KeyStore_of_members _ = None"

definition asKeyStore :: "json \<Rightarrow> KeyStore option" where
  "asKeyStore j = (case j of JObj members \<Rightarrow> KeyStore_of_members members | _ \<Rightarrow> None)"

text \<open>The literal \<open>{ currentVersion: 0, keys: [] }\<close>.\<close>

definition empty_store :: KeyStore where
  "empty_store = \<lparr>currentVersion = 0, keys = []\<rparr>"

subsection \<open>The platform\<close>

text \<open>
  The program runs on Deno. What it uses of the platform is modelled here.

  \<^item> \<open>JSON.parse\<close> and \<open>JSON.stringify(_, null, 2)\<close> are parameters (a \<open>runtime\<close>): parsing
    returns the value or fails with a \<open>SyntaxError\<close> (\<open>None\<close>).
  \<^item> The file system is a map from paths to file contents and a set of directories.
  \<^item> Every call that can throw gets its outcome from an \<open>env\<close>, the conditions one
    operation runs under: whether the directory can be made, whether the store file can
    be looked up and read, what the key generator answers, how many arguments a call
    can take (the limit of \<open>fromCharCode\<close>), what the clock says and, for each path,
    whether a write goes through. A write that fails either leaves the file
    alone (it could not be opened) or has already truncated it and written the first
    \<open>n\<close> characters: \<open>Deno.writeTextFile\<close> opens the file for writing in place.
    The conditions hold for the whole operation: the two loads of one \<open>rotateKeys\<close> meet
    the same ones.
  \<^item> The console lines and the writes are recorded, in order, in the \<open>trace\<close>.
\<close>

datatype event =
    Console_log string
  | Console_warn string
  | Write_text_file string

datatype write_fault =
    Denied error
  | Interrupted error nat

record runtime =
  JSON_parse :: "string \<Rightarrow> json option"
  JSON_stringify :: "json \<Rightarrow> string"

record world =
  files :: "string \<Rightarrow> string option"
  dirs :: "string set"
  trace :: "event list"

record env =
  ensureDir_fault :: "error option"
  exists_fault :: "error option"
  readTextFile_fault :: "error option"
  generateKey_result :: "error + (byte list \<times> byte list)"
  exportKey_fault :: "string \<Rightarrow> error option"
  argument_limit :: nat
  now :: string
  writeTextFile_fault :: "string \<Rightarrow> write_fault option"

type_synonym 'a outcome = "(error + 'a) \<times> world"

text \<open>\<open>await r k\<close>: when \<open>r\<close> threw, so does the whole; otherwise go on with its value.\<close>

definition await :: "'a outcome \<Rightarrow> ('a \<Rightarrow> world \<Rightarrow> 'b outcome) \<Rightarrow> 'b outcome" where
  "await r k = (case r of (Inl e, w) \<Rightarrow> (Inl e, w) | (Inr x, w) \<Rightarrow> k x w)"

definition console_log :: "string \<Rightarrow> world \<Rightarrow> world" where
  "console_log line w = w\<lparr>trace := trace w @ [Console_log line]\<rparr>"

definition console_warn :: "string \<Rightarrow> world \<Rightarrow> world" where
  "console_warn line w = w\<lparr>trace := trace w @ [Console_warn line]\<rparr>"

definition ensureDir :: "env \<Rightarrow> string \<Rightarrow> world \<Rightarrow> unit outcome" where
  "ensureDir env dir w =
     (case ensureDir_fault env of
        Some e \<Rightarrow> (Inl e, w)
      | None \<Rightarrow> (Inr (), w\<lparr>dirs := insert dir (dirs w)\<rparr>))"

definition exists :: "env \<Rightarrow> string \<Rightarrow> world \<Rightarrow> bool outcome" where
  "exists env path w =
     (case exists_fault env of
        Some e \<Rightarrow> (Inl e, w)
      | None \<Rightarrow> (Inr (files w path \<noteq> None), w))"

definition readTextFile :: "env \<Rightarrow> string \<Rightarrow> world \<Rightarrow> string outcome" where
  "readTextFile env path w =
     (case readTextFile_fault env of
        Some e \<Rightarrow> (Inl e, w)
      | None \<Rightarrow>
          (case files w path of
             None \<Rightarrow> (Inl (Deno_error ''NotFound''), w)
           | Some data \<Rightarrow> (Inr data, w)))"

definition writeTextFile :: "env \<Rightarrow> string \<Rightarrow> string \<Rightarrow> world \<Rightarrow> unit outcome" where
  "writeTextFile env path data w =
     (case writeTextFile_fault env path of
        None \<Rightarrow>
          (Inr (), w\<lparr>files := (files w)(path \<mapsto> data),
                     trace := trace w @ [Write_text_file path]\<rparr>)
      | Some (Denied e) \<Rightarrow> (Inl e, w)
      | Some (Interrupted e n) \<Rightarrow>
          (Inl e, w\<lparr>files := (files w)(path \<mapsto> take n data),
                    trace := trace w @ [Write_text_file path]\<rparr>))"

text \<open>
  \<open>crypto.subtle.generateKey\<close> answers with a key pair or rejects. A key pair is an opaque
  handle; the model holds it as the two encodings it exports to (PKCS8 of the private
  key, SPKI of the public key). \<open>crypto.subtle.exportKey\<close> can reject too.
\<close>

definition generateKey :: "env \<Rightarrow> world \<Rightarrow> (byte list \<times> byte list) outcome" where
  "generateKey env w = (generateKey_result env, w)"

definition exportKey :: "env \<Rightarrow> string \<Rightarrow> byte list \<Rightarrow> world \<Rightarrow> byte list outcome" where
  "exportKey env format encoding w =
     (case exportKey_fault env format of
        Some e \<Rightarrow> (Inl e, w)
      | None \<Rightarrow> (Inr encoding, w))"

text \<open>
  A number in a template literal: the decimal digits, with a minus sign below zero.
\<close>

fun digits :: "nat \<Rightarrow> string" where
  "digits n =
     (if n < 10 then [char_of (48 + n)]
      else digits (n div 10) @ [char_of (48 + n mod 10)])"

definition number_toString :: "int \<Rightarrow> string" where
  "number_toString i = (if i < 0 then CHR ''-'' # digits (nat (- i)) else digits (nat i))"

text \<open>
  \<open>join\<close> of the standard library's path module puts the separator between the two
  parts. (It also normalises the result, which for the paths of this program drops the
  leading \<open>./\<close> of every one of them alike.)
\<close>

definition join :: "string \<Rightarrow> string \<Rightarrow> string" where
  "join dir name = dir @ ''/'' @ name"

subsection \<open>The program\<close>

definition KEYS_DIR :: string where
  "KEYS_DIR = ''./.keys''"

definition KEY_STORE_FILE :: string where
  "KEY_STORE_FILE = join KEYS_DIR ''keystore.json''"

definition initKeysDirectory :: "env \<Rightarrow> world \<Rightarrow> unit outcome" where
  "initKeysDirectory env w =
     await (ensureDir env KEYS_DIR w) (\<lambda>_ w1.
       (Inr (), console_log (''Keys directory ready ('' @ KEYS_DIR @ '')'') w1))"

text \<open>
  \<^verbatim>\<open>
  async function loadKeyStore(): Promise<KeyStore> {
    try {
      if (await exists(KEY_STORE_FILE)) {
        const data: string = await Deno.readTextFile(KEY_STORE_FILE)
        return JSON.parse(data)
      }
    } catch (_error) {
      console.warn('Could not load keystore, creating new one')
    }
    return { currentVersion: 0, keys: [] }
  }
  \<close>
  \<open>loadKeyStore_try\<close> is the \<open>try\<close> block: it returns a value (\<open>Some\<close>), falls through
  (\<open>None\<close>) or throws.
\<close>

definition loadKeyStore_try :: "runtime \<Rightarrow> env \<Rightarrow> world \<Rightarrow> json option outcome" where
  "loadKeyStore_try rt env w =
     await (exists env KEY_STORE_FILE w) (\<lambda>found w1.
       if found then
         await (readTextFile env KEY_STORE_FILE w1) (\<lambda>data w2.
           (case JSON_parse rt data of
              None \<Rightarrow> (Inl SyntaxError, w2)
            | Some v \<Rightarrow> (Inr (Some v), w2)))
       else (Inr None, w1))"

definition loadKeyStore :: "runtime \<Rightarrow> env \<Rightarrow> world \<Rightarrow> json outcome" where
  "loadKeyStore rt env w =
     (case loadKeyStore_try rt env w of
        (Inr (Some v), w1) \<Rightarrow> (Inr v, w1)
      | (Inr None, w1) \<Rightarrow> (Inr (json_of_KeyStore empty_store), w1)
      | (Inl e, w1) \<Rightarrow>
          (Inr (json_of_KeyStore empty_store),
           console_warn ''Could not load keystore, creating new one'' w1))"

text \<open>The world after the warning of the \<open>catch\<close> block.\<close>

definition warned :: "world \<Rightarrow> world" where
  "warned w = console_warn ''Could not load keystore, creating new one'' w"

definition saveKeyStore :: "runtime \<Rightarrow> env \<Rightarrow> KeyStore \<Rightarrow> world \<Rightarrow> unit outcome" where
  "saveKeyStore rt env keyStore w =
     writeTextFile env KEY_STORE_FILE (JSON_stringify rt (json_of_KeyStore keyStore)) w"

text \<open>
  \<^verbatim>\<open>
  async function generateKeyPair(): Promise<{ privateKey: string; publicKey: string }> {
    const keyPair: CryptoKeyPair = await crypto.subtle.generateKey(
      'Ed25519', true, ['sign', 'verify'])
    const privateBuf: ArrayBuffer = await crypto.subtle.exportKey('pkcs8', keyPair.privateKey)
    const privatePem: string = toPEM(privateBuf, 'PRIVATE KEY')
    const publicBuf: ArrayBuffer = await crypto.subtle.exportKey('spki', keyPair.publicKey)
    const publicPem: string = toPEM(publicBuf, 'PUBLIC KEY')
    return { privateKey: privatePem, publicKey: publicPem }
  }
  \<close>
  Each of the five calls can throw, and what one throws leaves the function.
\<close>

definition generateKeyPair :: "env \<Rightarrow> world \<Rightarrow> (string \<times> string) outcome" where
  "generateKeyPair env w =
     await (generateKey env w) (\<lambda>keyPair w1.
     await (exportKey env ''pkcs8'' (fst keyPair) w1) (\<lambda>privateBuf w2.
     await (toPEM (argument_limit env) privateBuf ''PRIVATE KEY'', w2) (\<lambda>privatePem w3.
     await (exportKey env ''spki'' (snd keyPair) w3) (\<lambda>publicBuf w4.
     await (toPEM (argument_limit env) publicBuf ''PUBLIC KEY'', w4) (\<lambda>publicPem w5.
       (Inr (privatePem, publicPem), w5))))))"

definition private_key_path :: "int \<Rightarrow> string" where
  "private_key_path v = join KEYS_DIR (''private-v'' @ number_toString v @ ''.pem'')"

definition public_key_path :: "int \<Rightarrow> string" where
  "public_key_path v = join KEYS_DIR (''public-v'' @ number_toString v @ ''.pem'')"

definition saveKeyFiles :: "env \<Rightarrow> int \<Rightarrow> string \<Rightarrow> string \<Rightarrow> world \<Rightarrow> unit outcome" where
  "saveKeyFiles env v privateKey' publicKey' w =
     (let privateKeyPath = private_key_path v;
          publicKeyPath = public_key_path v
      in await (writeTextFile env privateKeyPath privateKey' w) (\<lambda>_ w1.
           writeTextFile env publicKeyPath publicKey' w1))"

text \<open>
  \<open>createNewKeyPair\<close> and \<open>rotateKeys\<close> go on with whatever \<open>loadKeyStore\<close> returned. On a
  value that is not the tree of a \<open>KeyStore\<close> the untyped program does things the types
  do not describe; the model stops there with \<open>Unmodelled_shape\<close>, and no theorem below
  is about such a run.
\<close>

definition createNewKeyPair :: "runtime \<Rightarrow> env \<Rightarrow> world \<Rightarrow> KeyStore outcome" where
  "createNewKeyPair rt env w =
     await (initKeysDirectory env w) (\<lambda>_ w1.
     await (loadKeyStore rt env w1) (\<lambda>loaded w2.
       (case asKeyStore loaded of
          None \<Rightarrow> (Inl Unmodelled_shape, w2)
        | Some keyStore \<Rightarrow>
            (let newVersion = currentVersion keyStore + 1;
                 w3 = console_log (''Generating Ed25519 key pair (version '' @
                        number_toString newVersion @ '')...'') w2
             in await (generateKeyPair env w3) (\<lambda>(privateKey', publicKey') w4.
                await (saveKeyFiles env newVersion privateKey' publicKey' w4) (\<lambda>_ w5.
                  let newKeyPair = \<lparr>privateKey = privateKey', publicKey = publicKey',
                                     createdAt = now env, version = newVersion\<rparr>;
                      keyStore1 = keyStore\<lparr>keys := keys keyStore @ [newKeyPair]\<rparr>;
                      keyStore2 = keyStore1\<lparr>currentVersion := newVersion\<rparr>
                  in await (saveKeyStore rt env keyStore2 w5) (\<lambda>_ w6.
                       (Inr keyStore2,
                        console_log ''Key pair successfully generated (PKCS8/SPKI)'' w6))))))))"

definition previous_versions :: "KeyStore \<Rightarrow> string" where
  "previous_versions ks =
     (let joined = join_with '', '' (map (\<lambda>k. ''v'' @ number_toString (version k))
                                        (butlast (keys ks)))
      in if joined = [] then ''none'' else joined)"

definition rotateKeys :: "runtime \<Rightarrow> env \<Rightarrow> world \<Rightarrow> KeyStore outcome" where
  "rotateKeys rt env w =
     await (loadKeyStore rt env w) (\<lambda>loaded w1.
       (case asKeyStore loaded of
          None \<Rightarrow> (Inl Unmodelled_shape, w1)
        | Some keyStore \<Rightarrow>
            if length (keys keyStore) = 0 then
              createNewKeyPair rt env
                (console_log ''No existing keys found, creating first key pair...'' w1)
            else
              (let w2 = console_log (''Rotating keys from version '' @
                          number_toString (currentVersion keyStore) @ ''...'') w1;
                   w3 = console_log (''Preserving '' @
                          number_toString (int (length (keys keyStore))) @
                          '' previous key(s)'') w2
               in await (createNewKeyPair rt env w3) (\<lambda>newKeyStore w4.
                    (Inr newKeyStore,
                     console_log (''  - Previous versions: '' @ previous_versions newKeyStore)
                       (console_log (''  - Total keys stored: '' @
                            number_toString (int (length (keys newKeyStore))))
                         (console_log (''  - Current version: '' @
                              number_toString (currentVersion newKeyStore))
                           (console_log ''Key rotation complete:'' w4))))))))"

subsection \<open>Runs\<close>

text \<open>
  What a caller can do with the manager, and a run: a sequence of operations, each under
  its own conditions, on the world the one before left. A run goes on after an operation
  that threw (the operator calls again).
\<close>

datatype operation = LoadStore | CreateNewKeyPair | Rotate

definition returning_json :: "KeyStore outcome \<Rightarrow> json outcome" where
  "returning_json r = (case r of (Inl e, w) \<Rightarrow> (Inl e, w) | (Inr ks, w) \<Rightarrow> (Inr (json_of_KeyStore ks), w))"

definition perform :: "runtime \<Rightarrow> operation \<Rightarrow> env \<Rightarrow> world \<Rightarrow> json outcome" where
  "perform rt op env w =
     (case op of
        LoadStore \<Rightarrow> loadKeyStore rt env w
      | CreateNewKeyPair \<Rightarrow> returning_json (createNewKeyPair rt env w)
      | Rotate \<Rightarrow> returning_json (rotateKeys rt env w))"

fun run :: "runtime \<Rightarrow> (operation \<times> env) list \<Rightarrow> world \<Rightarrow> (error + json) list \<times> world" where
  "run rt [] w = ([], w)"
| "run rt ((op, env) # rest) w =
     (case perform rt op env w of
        (r, w1) \<Rightarrow> (case run rt rest w1 of (rs, w2) \<Rightarrow> (r # rs, w2)))"

definition succeeded :: "error + 'a \<Rightarrow> bool" where
  "succeeded r = (case r of Inl _ \<Rightarrow> False | Inr _ \<Rightarrow> True)"

definition initial_world :: world where
  "initial_world = \<lparr>files = (\<lambda>_. None), dirs = {}, trace = []\<rparr>"

subsection \<open>The store invariant\<close>

definition max_version :: "KeyPair list \<Rightarrow> int" where
  "max_version kps = (if kps = [] then 0 else Max (set (map version kps)))"

definition store_invariant :: "KeyStore \<Rightarrow> bool" where
  "store_invariant ks =
     (currentVersion ks = max_version (keys ks) \<and>
      distinct (map version (keys ks)) \<and>
      map version (keys ks) = [1..currentVersion ks])"

definition json_store_invariant :: "json \<Rightarrow> bool" where
  "json_store_invariant j = (case asKeyStore j of None \<Rightarrow> False | Some ks \<Rightarrow> store_invariant ks)"

definition returned_invariant :: "error + json \<Rightarrow> bool" where
  "returned_invariant r = (case r of Inl _ \<Rightarrow> False | Inr j \<Rightarrow> json_store_invariant j)"

text \<open>
  The persisted store is what the store file parses to. The invariant holds of it when
  there is no store file (the store is empty then) or the file parses to a store the
  invariant holds of.
\<close>

definition persisted_invariant :: "runtime \<Rightarrow> world \<Rightarrow> bool" where
  "persisted_invariant rt w =
     (case files w KEY_STORE_FILE of
        None \<Rightarrow> True
      | Some data \<Rightarrow>
          (case JSON_parse rt data of
             None \<Rightarrow> False
           | Some j \<Rightarrow> json_store_invariant j))"

text \<open>
  What the theorems about runs ask of the platform's JSON functions: a store that was
  written parses back to itself. (ECMA-262's \<open>JSON.stringify\<close> and \<open>JSON.parse\<close> do that on
  objects of strings, integral numbers and arrays.)
\<close>

definition codec_round_trip :: "runtime \<Rightarrow> bool" where
  "codec_round_trip rt =
     (\<forall>ks. JSON_parse rt (JSON_stringify rt (json_of_KeyStore ks)) = Some (json_of_KeyStore ks))"

text \<open>
  Conditions an operation can meet: the store file is looked up and read without fault;
  every write goes through; the key generator answers, both exports succeed and both
  exported buffers are short enough for the call that spreads them.
\<close>

definition reads_succeed :: "env \<Rightarrow> bool" where
  "reads_succeed env = (exists_fault env = None \<and> readTextFile_fault env = None)"

definition writes_succeed :: "env \<Rightarrow> bool" where
  "writes_succeed env = (\<forall>path. writeTextFile_fault env path = None)"

definition key_generation_succeeds :: "env \<Rightarrow> bool" where
  "key_generation_succeeds env =
     ((\<exists>keyPair. generateKey_result env = Inr keyPair \<and>
                 length (fst keyPair) \<le> argument_limit env \<and>
                 length (snd keyPair) \<le> argument_limit env) \<and>
      exportKey_fault env ''pkcs8'' = None \<and> exportKey_fault env ''spki'' = None)"

text \<open>Nothing that \<open>createNewKeyPair\<close> calls after loading the store fails.\<close>

definition creation_unhindered :: "env \<Rightarrow> bool" where
  "creation_unhindered env =
     (ensureDir_fault env = None \<and> key_generation_succeeds env \<and> writes_succeed env)"

text \<open>
  The cryptographic primitive failing with \<open>e\<close>: \<open>generateKey\<close> rejects, or the export of
  the private key does, or the export of the public key does (that one is reached when
  the private key has been converted, so its buffer was short enough).
\<close>

definition crypto_rejects :: "env \<Rightarrow> error \<Rightarrow> bool" where
  "crypto_rejects env e =
     (case generateKey_result env of
        Inl e' \<Rightarrow> e' = e
      | Inr keyPair \<Rightarrow>
          (case exportKey_fault env ''pkcs8'' of
             Some e' \<Rightarrow> e' = e
           | None \<Rightarrow>
               length (fst keyPair) \<le> argument_limit env \<and>
               exportKey_fault env ''spki'' = Some e))"

definition file_writes :: "event list \<Rightarrow> string list" where
  "file_writes evs = concat (map (\<lambda>ev. case ev of Write_text_file p \<Rightarrow> [p] | _ \<Rightarrow> []) evs)"

definition warnings :: "event list \<Rightarrow> string list" where
  "warnings evs = concat (map (\<lambda>ev. case ev of Console_warn l \<Rightarrow> [l] | _ \<Rightarrow> []) evs)"

subsection \<open>Sample platforms and conditions\<close>

text \<open>
  For the examples: a codec that round-trips every value (a value is written as that
  many strokes as its number in an enumeration of all values), conditions under which
  nothing fails, and a fragment of the real codec, a table over the few texts and values
  the examples use.
\<close>

definition stroke_codec :: runtime where
  "stroke_codec =
     \<lparr>JSON_parse = (\<lambda>s. Some (from_nat (length s))),
      JSON_stringify = (\<lambda>j. replicate (to_nat j) (CHR ''|''))\<rparr>"

definition table_codec :: runtime where
  "table_codec =
     \<lparr>JSON_parse = (\<lambda>s. if s = ''42'' then Some (JNum 42)
                         else if s = ''{}'' then Some (JObj [])
                         else None),
      JSON_stringify = (\<lambda>j. if j = json_of_KeyStore empty_store
                             then ''{'' @ [LF] @ ''  '' @ [CHR 0x22] @ ''currentVersion'' @ [CHR 0x22] @
                                  '': 0,'' @ [LF] @ ''  '' @ [CHR 0x22] @ ''keys'' @ [CHR 0x22] @
                                  '': []'' @ [LF] @ ''}''
                             else [])\<rparr>"

definition fair_weather :: env where
  "fair_weather =
     \<lparr>ensureDir_fault = None, exists_fault = None, readTextFile_fault = None,
      generateKey_result = Inr ([0x30, 0x2E, 0x02, 0x01, 0x00], [0x30, 0x2A, 0x30, 0x05]),
      exportKey_fault = (\<lambda>_. None),
      argument_limit = 65535,
      now = ''2025-01-01T00:00:00.000Z'',
      writeTextFile_fault = (\<lambda>_. None)\<rparr>"

text \<open>The key pair \<open>createNewKeyPair\<close> makes in fair weather, for a version.\<close>

definition fair_weather_key :: "int \<Rightarrow> KeyPair" where
  "fair_weather_key v =
     \<lparr>privateKey = pem_text [0x30, 0x2E, 0x02, 0x01, 0x00] ''PRIVATE KEY'',
      publicKey = pem_text [0x30, 0x2A, 0x30, 0x05] ''PUBLIC KEY'',
      createdAt = ''2025-01-01T00:00:00.000Z'', version = v\<rparr>"



definition no_crypto :: env where
  "no_crypto = fair_weather\<lparr>generateKey_result := Inl (DOMException ''NotSupportedError'')\<rparr>"

definition store_write_interrupted :: env where
  "store_write_interrupted =
     fair_weather\<lparr>writeTextFile_fault :=
       (\<lambda>path. if path = KEY_STORE_FILE then Some (Interrupted (Deno_error ''Interrupted'') 10)
               else None)\<rparr>"

definition store_write_denied :: env where
  "store_write_denied =
     fair_weather\<lparr>writeTextFile_fault :=
       (\<lambda>path. if path = KEY_STORE_FILE then Some (Denied (Deno_error ''PermissionDenied''))
               else None)\<rparr>"

definition world_with_store_text :: "string \<Rightarrow> world" where
  "world_with_store_text data =
     initial_world\<lparr>files := (files initial_world)(KEY_STORE_FILE \<mapsto> data)\<rparr>"

subsection \<open>Notions used in the proofs about runs\<close>

text \<open>
  The number a string of decimal digits stands for; the version the store file holds
  (0 when there is no store file); and the key files of the versions \<open>1\<close> to \<open>v\<close> having
  been written once each, and no other key file at all.
\<close>

definition digits_value :: "string \<Rightarrow> nat" where
  "digits_value s = foldl (\<lambda>a c. 10 * a + (code_unit c - 48)) 0 s"

definition persisted_version :: "runtime \<Rightarrow> world \<Rightarrow> int \<Rightarrow> bool" where
  "persisted_version rt w v =
     (0 \<le> v \<and>
      (case files w KEY_STORE_FILE of
         None \<Rightarrow> v = 0
       | Some data \<Rightarrow>
           (\<exists>ks. data = JSON_stringify rt (json_of_KeyStore ks) \<and> currentVersion ks = v)))"

definition key_files_written :: "world \<Rightarrow> int \<Rightarrow> bool" where
  "key_files_written w v =
     (\<forall>N. count_list (file_writes (trace w)) (private_key_path N) =
            (if 1 \<le> N \<and> N \<le> v then 1 else 0) \<and>
          count_list (file_writes (trace w)) (public_key_path N) =
            (if 1 \<le> N \<and> N \<le> v then 1 else 0))"

section \<open>Properties of the PEM codec\<close>

declare replace_64.simps [simp del]
declare chunks.simps [simp del]

lemma b64_alphabet_length: "length b64_alphabet = 64"
  by (simp add: b64_alphabet_def)

lemma b64_alphabet_distinct: "distinct b64_alphabet"
  by (simp add: b64_alphabet_def)

lemma b64_value_char: "i < 64 \<Longrightarrow> b64_value (b64_char i) = Some i"
  unfolding b64_value_def b64_char_def
  using map_of_zip_nth [of b64_alphabet "[0..<64]" i]
  by (simp add: b64_alphabet_length b64_alphabet_distinct)

lemma b64_alphabet_plain: "list_all (\<lambda>c. plain c \<and> c \<noteq> CHR ''='') b64_alphabet"
  by (simp add: b64_alphabet_def plain_def white_space_def line_terminator_def code_unit_def)

lemma b64_char_plain: "i < 64 \<Longrightarrow> plain (b64_char i) \<and> b64_char i \<noteq> CHR ''=''"
  using b64_alphabet_plain
  by (simp add: list_all_length b64_char_def b64_alphabet_length)

lemma code_unit_less: "code_unit c < 256"
  unfolding code_unit_def
  by (metis of_char_mod_256 mod_less_divisor zero_less_numeral)

lemma b64_index_bounds:
  assumes "a < 256" "b < 256" "c < (256::nat)"
  shows "a div 4 < 64" "a mod 4 * 16 + b div 16 < 64" "b mod 16 * 4 + c div 64 < 64"
    "c mod 64 < 64" "a mod 4 * 16 < 64" "b mod 16 * 4 < 64"
  using assms by auto

lemma b64_regroup:
  assumes "a < 256" "b < 256" "c < (256::nat)"
  shows "a div 4 * 4 + (a mod 4 * 16 + b div 16) div 16 = a"
    and "(a mod 4 * 16 + b div 16) mod 16 * 16 + (b mod 16 * 4 + c div 64) div 4 = b"
    and "(b mod 16 * 4 + c div 64) mod 4 * 64 + c mod 64 = c"
    and "a div 4 * 4 + (a mod 4 * 16) div 16 = a"
    and "(a mod 4 * 16 + b div 16) mod 16 * 16 + (b mod 16 * 4) div 4 = b"
  using assms by auto

lemma char_of_code_unit: "char_of (code_unit c) = c"
  by (simp add: code_unit_def)

lemma base64_decode_btoa: "base64_decode (btoa s) = Some s"
proof (induction s rule: btoa.induct)
  case 1
  show ?case by simp
next
  case (2 a)
  show ?case
    using code_unit_less [of a] b64_index_bounds [of "code_unit a" 0 0]
      b64_regroup(4) [of "code_unit a" 0 0]
    by (simp add: b64_value_char char_of_code_unit)
next
  case (3 a b)
  have "b64_char (code_unit b mod 16 * 4) \<noteq> CHR ''=''"
    using b64_char_plain [of "code_unit b mod 16 * 4"] by simp
  then show ?case
    using code_unit_less [of a] code_unit_less [of b]
      b64_index_bounds [of "code_unit a" "code_unit b" 0]
      b64_regroup(1,5) [of "code_unit a" "code_unit b" 0]
    by (simp add: b64_value_char char_of_code_unit)
next
  case (4 a b c rest)
  have ne: "b64_char (code_unit c mod 64) \<noteq> CHR ''=''"
    using b64_char_plain [of "code_unit c mod 64"] by simp
  show ?case
    using 4 ne code_unit_less [of a] code_unit_less [of b] code_unit_less [of c]
      b64_index_bounds [of "code_unit a" "code_unit b" "code_unit c"]
      b64_regroup(1,2,3) [of "code_unit a" "code_unit b" "code_unit c"]
    by (simp add: b64_value_char char_of_code_unit)
qed

lemma btoa_plain: "list_all plain (btoa s)"
proof (induction s rule: btoa.induct)
  case 1
  show ?case by simp
next
  case (2 a)
  have "plain (CHR ''='')"
    by (simp add: plain_def white_space_def line_terminator_def code_unit_def)
  then show ?case
    using code_unit_less [of a] b64_index_bounds [of "code_unit a" 0 0]
    by (simp add: b64_char_plain)
next
  case (3 a b)
  have "plain (CHR ''='')"
    by (simp add: plain_def white_space_def line_terminator_def code_unit_def)
  then show ?case
    using code_unit_less [of a] code_unit_less [of b]
      b64_index_bounds [of "code_unit a" "code_unit b" 0]
    by (simp add: b64_char_plain)
next
  case (4 a b c rest)
  then show ?case
    using code_unit_less [of a] code_unit_less [of b] code_unit_less [of c]
      b64_index_bounds [of "code_unit a" "code_unit b" "code_unit c"]
    by (simp add: b64_char_plain)
qed

lemma bytes_of_binary_string: "map (\<lambda>c. word_of_nat (code_unit c)) (binary_string bs) = bs"
proof -
  have "word_of_nat (code_unit (char_of (unat b))) = b" for b :: byte
  proof -
    have "unat b < 256" using unsigned_less [of b] by simp
    then show ?thesis by (simp add: code_unit_def)
  qed
  then show ?thesis by (simp add: binary_string_def comp_def map_idI)
qed

lemma replace_64_Nil: "replace_64 [] = []"
  by (simp add: replace_64.simps)

lemma replace_64_short: "length s < 64 \<Longrightarrow> replace_64 s = s"
proof (induction s)
  case Nil
  show ?case by (simp add: replace_64_Nil)
next
  case (Cons c cs)
  then show ?case by (subst replace_64.simps) simp
qed

lemma plain_no_terminator: "list_all plain s \<Longrightarrow> list_all (\<lambda>c. \<not> line_terminator c) (take n s)"
  by (induction s arbitrary: n) (auto simp: plain_def take_Cons split: nat.splits)

lemma replace_64_long:
  "64 \<le> length s \<Longrightarrow> list_all plain s \<Longrightarrow>
   replace_64 s = take 64 s @ [LF] @ replace_64 (drop 64 s)"
  by (subst replace_64.simps) (simp add: plain_no_terminator)

lemma chunks_Nil: "chunks n [] = []"
  by (simp add: chunks.simps)

lemma chunks_short: "0 < length s \<Longrightarrow> length s \<le> 64 \<Longrightarrow> chunks 64 s = [s]"
  by (subst chunks.simps) (simp add: chunks_Nil)

lemma chunks_long:
  "64 < length s \<Longrightarrow> chunks 64 s = take 64 s # chunks 64 (drop 64 s)"
  by (subst chunks.simps) auto

lemma chunks_nonempty: "0 < n \<Longrightarrow> xs \<noteq> [] \<Longrightarrow> chunks n xs \<noteq> []"
  by (subst chunks.simps) simp

lemma trim_end_plain_last: "s \<noteq> [] \<Longrightarrow> \<not> white_space (last s) \<Longrightarrow> trim_end s = s"
  by (cases s rule: rev_cases) (simp_all add: trim_end_def)

lemma trim_end_append: "trim_end b \<noteq> [] \<Longrightarrow> trim_end (a @ b) = a @ trim_end b"
proof -
  assume "trim_end b \<noteq> []"
  then have "dropWhile white_space (rev b) \<noteq> []"
    by (simp add: trim_end_def)
  then obtain x where "x \<in> set (rev b)" "\<not> white_space x"
    by (metis dropWhile_eq_Nil_conv)
  then have "dropWhile white_space (rev b @ rev a) = dropWhile white_space (rev b) @ rev a"
    by (rule dropWhile_append1)
  then show ?thesis by (simp add: trim_end_def)
qed

lemma trim_end_LF: "trim_end (a @ [LF]) = trim_end a"
  by (simp add: trim_end_def white_space_def code_unit_def)

lemma plain_last: "list_all plain s \<Longrightarrow> s \<noteq> [] \<Longrightarrow> \<not> white_space (last s)"
  by (cases s rule: rev_cases) (simp_all add: plain_def)

lemma join_with_nonempty: "ls \<noteq> [] \<Longrightarrow> hd ls \<noteq> [] \<Longrightarrow> join_with sep ls \<noteq> []"
  by (induction sep ls rule: join_with.induct) auto

lemma trim_end_replace_64:
  "list_all plain s \<Longrightarrow> trim_end (replace_64 s) = join_with [LF] (chunks 64 s)"
proof (induction s rule: length_induct)
  case (1 s)
  show ?case
  proof (cases "length s < 64")
    case True
    show ?thesis
    proof (cases "s = []")
      case True
      then show ?thesis by (simp add: replace_64_Nil chunks_Nil trim_end_def)
    next
      case False
      with True 1(2) show ?thesis
        by (simp add: replace_64_short chunks_short trim_end_plain_last plain_last)
    qed
  next
    case False
    then have long: "64 \<le> length s" by simp
    have pt: "list_all plain (take 64 s)" and pd: "list_all plain (drop 64 s)"
      using 1(2) by (auto simp: list_all_iff dest: in_set_takeD in_set_dropD)
    have tne: "take 64 s \<noteq> []" using long by auto
    have r: "replace_64 s = take 64 s @ [LF] @ replace_64 (drop 64 s)"
      using long 1(2) by (rule replace_64_long)
    show ?thesis
    proof (cases "drop 64 s = []")
      case True
      then have "length s = 64" using long by simp
      then have c: "chunks 64 s = [s]" by (simp add: chunks_short)
      have "trim_end (replace_64 s) = trim_end (take 64 s)"
        using r True trim_end_LF [of "take 64 s"] by (simp add: replace_64_Nil)
      also have "\<dots> = take 64 s"
        using pt tne by (simp add: trim_end_plain_last plain_last)
      also have "\<dots> = s" using True by simp
      finally show ?thesis using c by simp
    next
      case False
      then have l: "64 < length s" by simp
      have ih: "trim_end (replace_64 (drop 64 s)) = join_with [LF] (chunks 64 (drop 64 s))"
        using 1(1) pd long by simp
      have cne: "chunks 64 (drop 64 s) \<noteq> []"
        using False by (simp add: chunks_nonempty)
      have hne: "hd (chunks 64 (drop 64 s)) \<noteq> []"
        using False by (subst chunks.simps) simp
      have jne: "join_with [LF] (chunks 64 (drop 64 s)) \<noteq> []"
        using cne hne by (rule join_with_nonempty)
      have "trim_end (replace_64 s) = (take 64 s @ [LF]) @ trim_end (replace_64 (drop 64 s))"
        using r trim_end_append [of "replace_64 (drop 64 s)" "take 64 s @ [LF]"] ih jne by simp
      also have "\<dots> = take 64 s @ [LF] @ join_with [LF] (chunks 64 (drop 64 s))"
        using ih by simp
      also have "\<dots> = join_with [LF] (chunks 64 s)"
        using cne by (cases "chunks 64 (drop 64 s)") (simp_all add: chunks_long [OF l])
      finally show ?thesis .
    qed
  qed
qed

lemma replace_64_head: "s \<noteq> [] \<Longrightarrow> hd (replace_64 s) = hd s"
  by (subst replace_64.simps) (auto simp: hd_append neq_Nil_conv)

lemma replace_64_eq_Nil: "replace_64 s = [] \<longleftrightarrow> s = []"
  by (subst replace_64.simps) (auto split: list.splits)

lemma trim_replace_64:
  assumes "list_all plain s"
  shows "trim (replace_64 s) = join_with [LF] (chunks 64 s)"
proof -
  have "dropWhile white_space (replace_64 s) = replace_64 s"
  proof (cases "s = []")
    case True
    then show ?thesis by (simp add: replace_64_Nil)
  next
    case False
    then have "replace_64 s \<noteq> []" by (simp add: replace_64_eq_Nil)
    moreover have "\<not> white_space (hd (replace_64 s))"
      using False assms by (cases s) (simp_all add: replace_64_head plain_def)
    ultimately show ?thesis by (cases "replace_64 s") simp_all
  qed
  then have "trim (replace_64 s) = trim_end (replace_64 s)"
    by (simp add: trim_def trim_end_def)
  then show ?thesis using assms by (simp add: trim_end_replace_64)
qed

lemma split_lines_nonempty: "split_lines s \<noteq> []"
  by (induction s) (auto split: list.splits)

lemma split_lines_no_LF: "LF \<notin> set a \<Longrightarrow> split_lines a = [a]"
  by (induction a) auto

lemma split_lines_append_LF: "LF \<notin> set a \<Longrightarrow> split_lines (a @ LF # b) = a # split_lines b"
proof (induction a)
  case Nil
  show ?case by simp
next
  case (Cons c cs)
  then show ?case by (cases "split_lines (cs @ LF # b)") auto
qed

lemma split_lines_join:
  "ls \<noteq> [] \<Longrightarrow> list_all (\<lambda>l. LF \<notin> set l) ls \<Longrightarrow>
   split_lines (join_with [LF] ls @ LF # b) = ls @ split_lines b"
proof (induction "[LF]" ls rule: join_with.induct)
  case 1
  then show ?case by simp
next
  case (2 x)
  then show ?case by (simp add: split_lines_append_LF)
next
  case (3 x y ys)
  then show ?case by (simp add: split_lines_append_LF)
qed

lemma concat_chunks: "concat (chunks n s) = s \<or> n = 0"
proof (induction n s rule: chunks.induct)
  case (1 n xs)
  then show ?case by (subst chunks.simps) auto
qed

lemma chunks_set_subset: "l \<in> set (chunks n s) \<Longrightarrow> set l \<subseteq> set s"
proof (induction n s rule: chunks.induct)
  case (1 n xs)
  from 1(2) have "n \<noteq> 0 \<and> xs \<noteq> []"
    by (subst (asm) chunks.simps) (auto split: if_splits)
  with 1 show ?case
    by (subst (asm) (2) chunks.simps) (auto dest: in_set_takeD in_set_dropD)
qed

lemma strip_affixes_exact: "strip_affixes pre suf (pre @ l @ suf) = Some l"
  by (simp add: strip_affixes_def)

lemma body_lines:
  assumes "list_all plain s"
  shows "\<exists>ls. ls \<noteq> [] \<and> concat ls = s \<and>
     (\<forall>b. split_lines (join_with [LF] (chunks 64 s) @ LF # b) = ls @ split_lines b)"
proof (cases "s = []")
  case True
  then have "\<forall>b. split_lines (join_with [LF] (chunks 64 s) @ LF # b) = [[]] @ split_lines b"
    by (simp add: chunks_Nil)
  with True show ?thesis by (intro exI [of _ "[[]]"]) simp
next
  case False
  have ne: "chunks 64 s \<noteq> []" using False by (simp add: chunks_nonempty)
  have "LF \<notin> set s" using assms by (auto simp: list_all_iff plain_def)
  then have "list_all (\<lambda>l. LF \<notin> set l) (chunks 64 s)"
    using chunks_set_subset [of _ 64 s] by (auto simp: list_all_iff)
  then have "\<forall>b. split_lines (join_with [LF] (chunks 64 s) @ LF # b) = chunks 64 s @ split_lines b"
    using ne by (simp add: split_lines_join)
  moreover have "concat (chunks 64 s) = s" using concat_chunks [of 64 s] by simp
  ultimately show ?thesis using ne by blast
qed

lemma toPEM_returns:
  "length buffer \<le> limit \<Longrightarrow>
   toPEM limit buffer label =
     Inr (''-----BEGIN '' @ label @ ''-----'' @ [LF] @
          join_with [LF] (chunks 64 (btoa (binary_string buffer))) @ [LF] @
          ''-----END '' @ label @ ''-----'' @ [LF])"
  by (simp add: toPEM_def fromCharCode_def trim_replace_64 btoa_plain)

lemma toPEM_throws: "limit < length buffer \<Longrightarrow> toPEM limit buffer label = Inl RangeError"
  by (simp add: toPEM_def fromCharCode_def)

lemma pem_text_body:
  "pem_text buffer label =
     ''-----BEGIN '' @ label @ ''-----'' @ [LF] @
     join_with [LF] (chunks 64 (btoa (binary_string buffer))) @ [LF] @
     ''-----END '' @ label @ ''-----'' @ [LF]"
  by (simp add: pem_text_def toPEM_returns)

lemma toPEM_pem_text:
  "length buffer \<le> limit \<Longrightarrow> toPEM limit buffer label = Inr (pem_text buffer label)"
  by (simp add: toPEM_returns pem_text_body)

lemma long_buffer: "(125000 :: nat) < length (replicate 200000 (0 :: byte))"
  by (simp only: length_replicate)

lemma pem_decode_pem_text:
  assumes "LF \<notin> set label"
  shows "pem_decode (pem_text buffer label) = Inr buffer"
proof -
  let ?s = "btoa (binary_string buffer)"
  let ?H = "''-----BEGIN '' @ label @ ''-----''"
  let ?F = "''-----END '' @ label @ ''-----''"
  obtain ls where ls: "ls \<noteq> []" "concat ls = ?s"
    and sp: "\<And>b. split_lines (join_with [LF] (chunks 64 ?s) @ LF # b) = ls @ split_lines b"
    using body_lines [OF btoa_plain [of "binary_string buffer"]] by blast
  have H: "LF \<notin> set ?H" and F: "LF \<notin> set ?F" using assms by auto
  have "pem_text buffer label = ?H @ LF # (join_with [LF] (chunks 64 ?s) @ LF # (?F @ LF # []))"
    by (simp add: pem_text_body)
  then have "split_lines (pem_text buffer label) = ?H # (ls @ [?F, []])"
    using split_lines_append_LF [OF H] split_lines_append_LF [OF F, of "[]"] sp
    by simp
  moreover have "strip_affixes ''-----BEGIN '' ''-----'' ?H = Some label"
    by (rule strip_affixes_exact)
  moreover have "strip_affixes ''-----END '' ''-----'' ?F = Some label"
    by (rule strip_affixes_exact)
  ultimately show ?thesis
    using ls by (simp add: pem_decode_def butlast_append base64_decode_btoa bytes_of_binary_string)
qed

lemma chunks_lengths:
  "list_all (\<lambda>l. 0 < length l \<and> length l \<le> n) (chunks n s) \<and>
   list_all (\<lambda>l. length l = n) (butlast (chunks n s))"
proof (induction n s rule: chunks.induct)
  case (1 n xs)
  show ?case
  proof (cases "n = 0 \<or> xs = []")
    case True
    then show ?thesis by (subst (1 2) chunks.simps) simp
  next
    case False
    then have c: "chunks n xs = take n xs # chunks n (drop n xs)"
      by (subst chunks.simps) simp
    have ih: "list_all (\<lambda>l. 0 < length l \<and> length l \<le> n) (chunks n (drop n xs))"
      "list_all (\<lambda>l. length l = n) (butlast (chunks n (drop n xs)))"
      using 1 False by simp_all
    have "chunks n (drop n xs) \<noteq> [] \<Longrightarrow> n \<le> length xs"
    proof (rule ccontr)
      assume "chunks n (drop n xs) \<noteq> []" and "\<not> n \<le> length xs"
      then show False by (simp add: chunks_Nil)
    qed
    then show ?thesis using False ih by (auto simp: c)
  qed
qed

text \<open>
  Claim C7, as the code has it. When the label holds no line feed and the buffer is no
  longer than the engine's limit on the arguments of a call, \<open>toPEM\<close> returns a text, and
  decoding that text gives the buffer back. (A line feed in the label breaks the
  delimiter lines apart, and a decoder that works line by line cannot find them again;
  on a buffer beyond the limit \<open>toPEM\<close> throws and there is no text to decode.)
\<close>

theorem pem_round_trip:
  assumes "LF \<notin> set label" and "length buffer \<le> limit"
  shows "\<exists>pemText. toPEM limit buffer label = Inr pemText \<and> pem_decode pemText = Inr buffer"
  using toPEM_pem_text [OF assms(2), of label] pem_decode_pem_text [OF assms(1), of buffer]
  by simp

theorem pem_round_trip_witness:
  "LF \<notin> set ''PRIVATE KEY'' \<and>
   length [0x30, 0x2E, 0x02, 0x01, 0x00 :: byte] \<le> 65535 \<and>
   (\<exists>pemText. toPEM 65535 [0x30, 0x2E, 0x02, 0x01, 0x00] ''PRIVATE KEY'' = Inr pemText \<and>
              pem_decode pemText = Inr [0x30, 0x2E, 0x02, 0x01, 0x00])"
  using pem_round_trip [of "''PRIVATE KEY''" "[0x30, 0x2E, 0x02, 0x01, 0x00]" 65535] by simp

text \<open>
  Claim C7 as it is stated, for every buffer and label, fails twice. With the label \<open>A\<close>,
  line feed, \<open>B\<close> the text of the empty buffer does not decode. And of a buffer of 200000
  bytes, on an engine that takes 125000 arguments in a call, \<open>toPEM\<close> makes no text: it
  throws a \<open>RangeError\<close>.
\<close>

theorem pem_round_trip_counterexample:
  "toPEM 65535 [] [CHR ''A'', LF, CHR ''B''] =
     Inr (''-----BEGIN A'' @ [LF] @ ''B-----'' @ [LF] @ [LF] @
          ''-----END A'' @ [LF] @ ''B-----'' @ [LF]) \<and>
   pem_decode (''-----BEGIN A'' @ [LF] @ ''B-----'' @ [LF] @ [LF] @
               ''-----END A'' @ [LF] @ ''B-----'' @ [LF]) = Inl MalformedPemError \<and>
   toPEM 125000 (replicate 200000 0) ''PRIVATE KEY'' = Inl RangeError"
proof (intro conjI)
  show "toPEM 65535 [] [CHR ''A'', LF, CHR ''B''] =
     Inr (''-----BEGIN A'' @ [LF] @ ''B-----'' @ [LF] @ [LF] @
          ''-----END A'' @ [LF] @ ''B-----'' @ [LF])"
    by (simp add: toPEM_def fromCharCode_def binary_string_def replace_64.simps trim_def)
  show "pem_decode (''-----BEGIN A'' @ [LF] @ ''B-----'' @ [LF] @ [LF] @
               ''-----END A'' @ [LF] @ ''B-----'' @ [LF]) = Inl MalformedPemError"
    by (simp add: pem_decode_def strip_affixes_def)
  show "toPEM 125000 (replicate 200000 0) ''PRIVATE KEY'' = Inl RangeError"
    by (rule toPEM_throws [OF long_buffer])
qed

text \<open>
  Claim C8, as the code has it. For a buffer no longer than the engine's limit on the
  arguments of a call, what \<open>toPEM\<close> returns is a function of the buffer and the label
  alone (no state, clock or random source enters it, and the limit itself does not show
  in the text), so equal inputs give equal text. The text is the line
  \<open>-----BEGIN label-----\<close>, then the base64 encoding of the buffer cut into lines of 64
  characters (every line but the last has exactly 64, no line is empty, and the lines
  put together are the encoding), then the line \<open>-----END label-----\<close>, each line ended by
  a line feed.
\<close>

theorem toPEM_format:
  assumes "length buffer \<le> limit"
  shows "toPEM limit buffer label =
     Inr (''-----BEGIN '' @ label @ ''-----'' @ [LF] @
          join_with [LF] (chunks 64 (btoa (binary_string buffer))) @ [LF] @
          ''-----END '' @ label @ ''-----'' @ [LF]) \<and>
   concat (chunks 64 (btoa (binary_string buffer))) = btoa (binary_string buffer) \<and>
   list_all (\<lambda>l. 0 < length l \<and> length l \<le> 64) (chunks 64 (btoa (binary_string buffer))) \<and>
   list_all (\<lambda>l. length l = 64) (butlast (chunks 64 (btoa (binary_string buffer))))"
  using toPEM_returns [OF assms, of label] concat_chunks [of 64 "btoa (binary_string buffer)"]
    chunks_lengths [of 64 "btoa (binary_string buffer)"]
  by simp

theorem toPEM_format_witness:
  "length [1, 2, 3 :: byte] \<le> 65535 \<and>
   toPEM 65535 [1, 2, 3] ''PUBLIC KEY'' =
     Inr (''-----BEGIN PUBLIC KEY-----'' @ [LF] @ ''AQID'' @ [LF] @
          ''-----END PUBLIC KEY-----'' @ [LF])"
proof -
  have "btoa (binary_string [1, 2, 3]) = ''AQID''"
    by (simp add: binary_string_def b64_char_def b64_alphabet_def code_unit_def)
  moreover have "chunks 64 ''AQID'' = [''AQID'']"
    by (simp add: chunks_short)
  ultimately show ?thesis
    using toPEM_format [of "[1, 2, 3]" 65535 "''PUBLIC KEY''"] by simp
qed

text \<open>
  Claim C8 as it is stated, for every byte buffer, fails: of a buffer of 200000 bytes,
  on an engine that takes 125000 arguments in a call, \<open>toPEM\<close> returns no text. The
  spread call throws a \<open>RangeError\<close>.
\<close>

theorem toPEM_format_counterexample:
  "toPEM 125000 (replicate 200000 0) ''PUBLIC KEY'' = Inl RangeError"
  by (rule toPEM_throws [OF long_buffer])

section \<open>Properties of the key store manager\<close>

lemma await_Inl: "await (Inl e, w) k = (Inl e, w)"
  by (simp add: await_def)

lemma await_Inr: "await (Inr x, w) k = k x w"
  by (simp add: await_def)

lemma asKeyPair_json: "asKeyPair (json_of_KeyPair k) = Some k"
  by (simp add: asKeyPair_def json_of_KeyPair_def)

lemma those_asKeyPair: "those (map asKeyPair (map json_of_KeyPair kps)) = Some kps"
  by (induction kps) (simp_all add: asKeyPair_json)

lemma asKeyStore_json: "asKeyStore (json_of_KeyStore ks) = Some ks"
  using those_asKeyPair [of "keys ks"] by (simp add: asKeyStore_def json_of_KeyStore_def)

lemma asKeyPair_Some: "asKeyPair j = Some k \<Longrightarrow> j = json_of_KeyPair k"
proof -
  assume a: "asKeyPair j = Some k"
  then obtain members where j: "j = JObj members" and m: "KeyPair_of_members members = Some k"
    by (cases j) (simp_all add: asKeyPair_def)
  from m have "members = [(''privateKey'', JStr (privateKey k)), (''publicKey'', JStr (publicKey k)),
           (''createdAt'', JStr (createdAt k)), (''version'', JNum (version k))]"
    by (elim KeyPair_of_members.elims) (auto split: if_splits)
  then show ?thesis using j by (simp add: json_of_KeyPair_def)
qed

lemma those_asKeyPair_Some:
  "those (map asKeyPair elems) = Some kps \<Longrightarrow> elems = map json_of_KeyPair kps"
proof (induction elems arbitrary: kps)
  case Nil
  then show ?case by simp
next
  case (Cons x xs)
  then show ?case
    by (auto simp: asKeyPair_Some split: option.splits)
qed

lemma asKeyStore_Some: "asKeyStore j = Some ks \<Longrightarrow> j = json_of_KeyStore ks"
proof -
  assume a: "asKeyStore j = Some ks"
  then obtain members where j: "j = JObj members" and m: "KeyStore_of_members members = Some ks"
    by (cases j) (simp_all add: asKeyStore_def)
  from m have "\<exists>elems. members = [(''currentVersion'', JNum (currentVersion ks)), (''keys'', JArr elems)] \<and>
      those (map asKeyPair elems) = Some (keys ks)"
  proof (rule KeyStore_of_members.elims, goal_cases)
    case (1 n1 v n2 elems)
    then show ?case by (cases ks) (simp split: if_splits option.splits)
  qed simp_all
  then show ?thesis using j those_asKeyPair_Some by (auto simp add: json_of_KeyStore_def)
qed

lemma json_of_KeyStore_inj: "json_of_KeyStore a = json_of_KeyStore b \<Longrightarrow> a = b"
  by (metis asKeyStore_json option.inject)

lemma loadKeyStore_eq:
  "loadKeyStore rt env w =
     (case exists_fault env of
        Some e \<Rightarrow> (Inr (json_of_KeyStore empty_store), warned w)
      | None \<Rightarrow>
          (case files w KEY_STORE_FILE of
             None \<Rightarrow> (Inr (json_of_KeyStore empty_store), w)
           | Some data \<Rightarrow>
               (case readTextFile_fault env of
                  Some e \<Rightarrow> (Inr (json_of_KeyStore empty_store), warned w)
                | None \<Rightarrow>
                    (case JSON_parse rt data of
                       None \<Rightarrow> (Inr (json_of_KeyStore empty_store), warned w)
                     | Some v \<Rightarrow> (Inr v, w)))))"
  by (simp add: loadKeyStore_def loadKeyStore_try_def exists_def readTextFile_def warned_def
      await_def split: option.splits)

lemma loadKeyStore_total: "\<exists>j. fst (loadKeyStore rt env w) = Inr j"
  by (simp add: loadKeyStore_eq split: option.splits)

lemma loadKeyStore_world:
  "snd (loadKeyStore rt env w) = w \<or> snd (loadKeyStore rt env w) = warned w"
  by (simp add: loadKeyStore_eq split: option.splits)

lemma loadKeyStore_files_only:
  "files w1 = files w \<Longrightarrow> fst (loadKeyStore rt env w1) = fst (loadKeyStore rt env w)"
  by (simp add: loadKeyStore_eq split: option.splits)

lemma warned_simps:
  "files (warned w) = files w" "dirs (warned w) = dirs w"
  "trace (warned w) = trace w @ [Console_warn ''Could not load keystore, creating new one'']"
  by (simp_all add: warned_def console_warn_def)

lemma console_log_simps:
  "files (console_log l w) = files w" "dirs (console_log l w) = dirs w"
  "trace (console_log l w) = trace w @ [Console_log l]"
  by (simp_all add: console_log_def)

lemma file_writes_simps:
  "file_writes [] = []"
  "file_writes (xs @ ys) = file_writes xs @ file_writes ys"
  "file_writes (Console_log l # xs) = file_writes xs"
  "file_writes (Console_warn l # xs) = file_writes xs"
  "file_writes (Write_text_file p # xs) = p # file_writes xs"
  by (simp_all add: file_writes_def)

lemma loadKeyStore_frame:
  "files (snd (loadKeyStore rt env w)) = files w"
  "dirs (snd (loadKeyStore rt env w)) = dirs w"
  "file_writes (trace (snd (loadKeyStore rt env w))) = file_writes (trace w)"
  using loadKeyStore_world [of rt env w]
  by (auto simp: warned_simps file_writes_simps)

lemma generateKeyPair_world: "snd (generateKeyPair env w) = w"
  by (simp add: generateKeyPair_def generateKey_def exportKey_def await_def Let_def
      split: sum.splits option.splits prod.splits)

lemma generateKeyPair_throws:
  "generateKey_result env = Inr kp \<Longrightarrow> exportKey_fault env ''pkcs8'' = None \<Longrightarrow>
   argument_limit env < length (fst kp) \<Longrightarrow> generateKeyPair env w = (Inl RangeError, w)"
  by (simp add: generateKeyPair_def generateKey_def exportKey_def await_def toPEM_throws)

lemma generateKeyPair_rejects:
  "crypto_rejects env e \<Longrightarrow> generateKeyPair env w = (Inl e, w)"
  by (auto simp: crypto_rejects_def generateKeyPair_def generateKey_def exportKey_def await_def
      toPEM_pem_text split: sum.splits option.splits)

lemma generateKeyPair_succeeds:
  "generateKey_result env = Inr kp \<Longrightarrow> exportKey_fault env ''pkcs8'' = None \<Longrightarrow>
   exportKey_fault env ''spki'' = None \<Longrightarrow>
   length (fst kp) \<le> argument_limit env \<Longrightarrow> length (snd kp) \<le> argument_limit env \<Longrightarrow>
   generateKeyPair env w =
     (Inr (pem_text (fst kp) ''PRIVATE KEY'', pem_text (snd kp) ''PUBLIC KEY''), w)"
  by (simp add: generateKeyPair_def generateKey_def exportKey_def await_def toPEM_pem_text)

lemma await_fst: "fst r = Inr x \<Longrightarrow> await r k = k x (snd r)"
  by (cases r) (simp add: await_def)

lemma KeyStore_updated:
  "(ks :: KeyStore)\<lparr>keys := a, currentVersion := b\<rparr> = \<lparr>currentVersion = b, keys = a\<rparr>"
  by (cases ks) simp

lemma createNewKeyPair_load:
  assumes "fst (loadKeyStore rt env w) = Inr (json_of_KeyStore ks)"
  shows "createNewKeyPair rt env w =
     (case ensureDir_fault env of
        Some e \<Rightarrow> (Inl e, w)
      | None \<Rightarrow>
          (let w2 = snd (loadKeyStore rt env
                      (console_log (''Keys directory ready ('' @ KEYS_DIR @ '')'')
                         (w\<lparr>dirs := insert KEYS_DIR (dirs w)\<rparr>)));
               newVersion = currentVersion ks + 1;
               w3 = console_log (''Generating Ed25519 key pair (version '' @
                      number_toString newVersion @ '')...'') w2
           in await (generateKeyPair env w3) (\<lambda>(privateKey', publicKey') w4.
                await (saveKeyFiles env newVersion privateKey' publicKey' w4) (\<lambda>_ w5.
                  let keyStore2 = \<lparr>currentVersion = newVersion,
                        keys = keys ks @ [\<lparr>privateKey = privateKey', publicKey = publicKey',
                                           createdAt = now env, version = newVersion\<rparr>]\<rparr>
                  in await (saveKeyStore rt env keyStore2 w5) (\<lambda>_ w6.
                       (Inr keyStore2,
                        console_log ''Key pair successfully generated (PKCS8/SPKI)'' w6))))))"
proof (cases "ensureDir_fault env")
  case (Some e)
  then show ?thesis
    by (simp add: createNewKeyPair_def initKeysDirectory_def ensureDir_def await_def)
next
  case None
  let ?w1 = "console_log (''Keys directory ready ('' @ KEYS_DIR @ '')'')
               (w\<lparr>dirs := insert KEYS_DIR (dirs w)\<rparr>)"
  have "files ?w1 = files w" by (simp add: console_log_simps)
  then have "fst (loadKeyStore rt env ?w1) = Inr (json_of_KeyStore ks)"
    using assms loadKeyStore_files_only [of ?w1 w rt env] by simp
  then have "await (loadKeyStore rt env ?w1) k =
      k (json_of_KeyStore ks) (snd (loadKeyStore rt env ?w1))" for k :: "json \<Rightarrow> world \<Rightarrow> KeyStore outcome"
    by (rule await_fst)
  then show ?thesis
    using None
    by (simp add: createNewKeyPair_def initKeysDirectory_def ensureDir_def await_Inr
        asKeyStore_json Let_def KeyStore_updated)
qed

lemma writeTextFile_ok:
  "writeTextFile_fault env path = None \<Longrightarrow>
   writeTextFile env path data w =
     (Inr (), w\<lparr>files := (files w)(path \<mapsto> data), trace := trace w @ [Write_text_file path]\<rparr>)"
  by (simp add: writeTextFile_def)

lemma writeTextFile_Inr:
  "writeTextFile env path data w = (Inr u, w') \<Longrightarrow>
   w' = w\<lparr>files := (files w)(path \<mapsto> data), trace := trace w @ [Write_text_file path]\<rparr>"
  by (auto simp: writeTextFile_def split: option.splits write_fault.splits)

lemma saveKeyFiles_Inr:
  "saveKeyFiles env v priv pub w = (Inr u, w') \<Longrightarrow>
   w' = w\<lparr>files := (files w)(private_key_path v \<mapsto> priv, public_key_path v \<mapsto> pub),
          trace := trace w @ [Write_text_file (private_key_path v),
                              Write_text_file (public_key_path v)]\<rparr>"
  by (auto simp: saveKeyFiles_def writeTextFile_def await_def Let_def
      split: option.splits write_fault.splits)

lemma createNewKeyPair_Inr:
  assumes load: "fst (loadKeyStore rt env w) = Inr (json_of_KeyStore ks)"
    and res: "createNewKeyPair rt env w = (Inr ks', w')"
  shows "\<exists>priv pub.
     ks' = \<lparr>currentVersion = currentVersion ks + 1,
            keys = keys ks @ [\<lparr>privateKey = priv, publicKey = pub, createdAt = now env,
                               version = currentVersion ks + 1\<rparr>]\<rparr> \<and>
     files w' = (files w)(private_key_path (currentVersion ks + 1) \<mapsto> priv,
                          public_key_path (currentVersion ks + 1) \<mapsto> pub,
                          KEY_STORE_FILE \<mapsto> JSON_stringify rt (json_of_KeyStore ks')) \<and>
     file_writes (trace w') = file_writes (trace w) @
        [private_key_path (currentVersion ks + 1), public_key_path (currentVersion ks + 1),
         KEY_STORE_FILE]"
proof -
  let ?v = "currentVersion ks + 1"
  let ?w1 = "console_log (''Keys directory ready ('' @ KEYS_DIR @ '')'')
               (w\<lparr>dirs := insert KEYS_DIR (dirs w)\<rparr>)"
  let ?w3 = "console_log (''Generating Ed25519 key pair (version '' @
               number_toString ?v @ '')...'') (snd (loadKeyStore rt env ?w1))"
  have f3: "files ?w3 = files w" and t3: "file_writes (trace ?w3) = file_writes (trace w)"
    by (simp_all add: console_log_simps loadKeyStore_frame file_writes_simps)
  from res have nd: "ensureDir_fault env = None"
    by (simp add: createNewKeyPair_load [OF load] split: option.splits)
  obtain g w4 where g: "generateKeyPair env ?w3 = (g, w4)" by (cases "generateKeyPair env ?w3")
  then have w4: "w4 = ?w3" using generateKeyPair_world [of env ?w3] by simp
  from res nd g obtain priv pub where gp: "g = Inr (priv, pub)"
    by (cases g) (auto simp: createNewKeyPair_load [OF load] Let_def await_def)
  obtain s w5 where s: "saveKeyFiles env ?v priv pub ?w3 = (s, w5)"
    by (cases "saveKeyFiles env ?v priv pub ?w3")
  from res nd g gp w4 s have sr: "s = Inr ()"
    by (cases s) (auto simp: createNewKeyPair_load [OF load] Let_def await_def)
  let ?ks' = "\<lparr>currentVersion = ?v,
            keys = keys ks @ [\<lparr>privateKey = priv, publicKey = pub, createdAt = now env,
                               version = ?v\<rparr>]\<rparr>"
  obtain t w6 where t: "saveKeyStore rt env ?ks' w5 = (t, w6)"
    by (cases "saveKeyStore rt env ?ks' w5")
  from res nd g gp w4 s sr t have tr: "t = Inr ()" and k: "ks' = ?ks'"
    and w': "w' = console_log ''Key pair successfully generated (PKCS8/SPKI)'' w6"
    by (cases t; auto simp: createNewKeyPair_load [OF load] Let_def await_def)+
  have w5: "w5 = ?w3\<lparr>files := (files ?w3)(private_key_path ?v \<mapsto> priv, public_key_path ?v \<mapsto> pub),
          trace := trace ?w3 @ [Write_text_file (private_key_path ?v),
                              Write_text_file (public_key_path ?v)]\<rparr>"
    using s sr saveKeyFiles_Inr by blast
  have w6: "w6 = w5\<lparr>files := (files w5)(KEY_STORE_FILE \<mapsto> JSON_stringify rt (json_of_KeyStore ?ks')),
          trace := trace w5 @ [Write_text_file KEY_STORE_FILE]\<rparr>"
    using t tr writeTextFile_Inr unfolding saveKeyStore_def by blast
  have "files w' = (files w)(private_key_path ?v \<mapsto> priv, public_key_path ?v \<mapsto> pub,
                          KEY_STORE_FILE \<mapsto> JSON_stringify rt (json_of_KeyStore ks'))"
    unfolding w' w6 w5 k using f3 by (simp add: console_log_simps)
  moreover have "file_writes (trace w') = file_writes (trace w) @
        [private_key_path ?v, public_key_path ?v, KEY_STORE_FILE]"
    unfolding w' w6 w5 using t3 by (simp add: console_log_simps file_writes_simps)
  ultimately show ?thesis using k by blast
qed

lemma rotateKeys_load:
  assumes "fst (loadKeyStore rt env w) = Inr (json_of_KeyStore ks)"
  shows "rotateKeys rt env w =
     (if keys ks = [] then
        createNewKeyPair rt env
          (console_log ''No existing keys found, creating first key pair...''
             (snd (loadKeyStore rt env w)))
      else
        await (createNewKeyPair rt env
                 (console_log (''Preserving '' @ number_toString (int (length (keys ks))) @
                               '' previous key(s)'')
                    (console_log (''Rotating keys from version '' @
                                  number_toString (currentVersion ks) @ ''...'')
                       (snd (loadKeyStore rt env w)))))
          (\<lambda>newKeyStore w4.
             (Inr newKeyStore,
              console_log (''  - Previous versions: '' @ previous_versions newKeyStore)
                (console_log (''  - Total keys stored: '' @
                     number_toString (int (length (keys newKeyStore))))
                  (console_log (''  - Current version: '' @
                       number_toString (currentVersion newKeyStore))
                    (console_log ''Key rotation complete:'' w4))))))"
proof -
  have "await (loadKeyStore rt env w) k = k (json_of_KeyStore ks) (snd (loadKeyStore rt env w))"
    for k :: "json \<Rightarrow> world \<Rightarrow> KeyStore outcome"
    using assms by (rule await_fst)
  then show ?thesis
    by (simp add: rotateKeys_def asKeyStore_json Let_def)
qed

lemma load_after_logs:
  assumes "fst (loadKeyStore rt env w) = Inr j" and "files w1 = files w"
  shows "fst (loadKeyStore rt env w1) = Inr j"
  using assms loadKeyStore_files_only [of w1 w rt env] by simp

lemma rotateKeys_Inr:
  assumes load: "fst (loadKeyStore rt env w) = Inr (json_of_KeyStore ks)"
    and res: "rotateKeys rt env w = (Inr ks', w')"
  shows "\<exists>priv pub.
     ks' = \<lparr>currentVersion = currentVersion ks + 1,
            keys = keys ks @ [\<lparr>privateKey = priv, publicKey = pub, createdAt = now env,
                               version = currentVersion ks + 1\<rparr>]\<rparr> \<and>
     files w' = (files w)(private_key_path (currentVersion ks + 1) \<mapsto> priv,
                          public_key_path (currentVersion ks + 1) \<mapsto> pub,
                          KEY_STORE_FILE \<mapsto> JSON_stringify rt (json_of_KeyStore ks')) \<and>
     file_writes (trace w') = file_writes (trace w) @
        [private_key_path (currentVersion ks + 1), public_key_path (currentVersion ks + 1),
         KEY_STORE_FILE]"
proof (cases "keys ks = []")
  case True
  let ?w1 = "console_log ''No existing keys found, creating first key pair...''
               (snd (loadKeyStore rt env w))"
  have f: "files ?w1 = files w" and t: "file_writes (trace ?w1) = file_writes (trace w)"
    by (simp_all add: console_log_simps loadKeyStore_frame file_writes_simps)
  have l: "fst (loadKeyStore rt env ?w1) = Inr (json_of_KeyStore ks)"
    using load f by (rule load_after_logs)
  have "createNewKeyPair rt env ?w1 = (Inr ks', w')"
    using res True by (simp add: rotateKeys_load [OF load])
  from createNewKeyPair_Inr [OF l this] show ?thesis
    by (simp only: f t)
next
  case False
  let ?w3 = "console_log (''Preserving '' @ number_toString (int (length (keys ks))) @
                               '' previous key(s)'')
                    (console_log (''Rotating keys from version '' @
                                  number_toString (currentVersion ks) @ ''...'')
                       (snd (loadKeyStore rt env w)))"
  have f: "files ?w3 = files w" and t: "file_writes (trace ?w3) = file_writes (trace w)"
    by (simp_all add: console_log_simps loadKeyStore_frame file_writes_simps)
  have l: "fst (loadKeyStore rt env ?w3) = Inr (json_of_KeyStore ks)"
    using load f by (rule load_after_logs)
  obtain r w4 where c: "createNewKeyPair rt env ?w3 = (r, w4)"
    by (cases "createNewKeyPair rt env ?w3")
  from res False c have r: "r = Inr ks'"
    and w': "w' = console_log (''  - Previous versions: '' @ previous_versions ks')
                (console_log (''  - Total keys stored: '' @
                     number_toString (int (length (keys ks'))))
                  (console_log (''  - Current version: '' @
                       number_toString (currentVersion ks'))
                    (console_log ''Key rotation complete:'' w4)))"
    by (cases r; simp add: rotateKeys_load [OF load] await_def)+
  have fw: "files w' = files w4" and tw: "file_writes (trace w') = file_writes (trace w4)"
    unfolding w' by (simp_all add: console_log_simps file_writes_simps)
  from createNewKeyPair_Inr [OF l c [unfolded r]] show ?thesis
    by (simp only: f t fw tw)
qed

lemma createNewKeyPair_rejects:
  assumes load: "fst (loadKeyStore rt env w) = Inr (json_of_KeyStore ks)"
    and rej: "crypto_rejects env e"
  shows "\<exists>e' w'. createNewKeyPair rt env w = (Inl e', w') \<and>
     (ensureDir_fault env = None \<longrightarrow> e' = e \<and> dirs w' = insert KEYS_DIR (dirs w)) \<and>
     files w' = files w \<and> file_writes (trace w') = file_writes (trace w)"
proof (cases "ensureDir_fault env")
  case (Some e0)
  then show ?thesis by (simp add: createNewKeyPair_load [OF load])
next
  case None
  then show ?thesis
    by (simp add: createNewKeyPair_load [OF load] Let_def generateKeyPair_rejects [OF rej]
        await_Inl console_log_simps loadKeyStore_frame file_writes_simps)
qed


lemma createNewKeyPair_succeeds:
  assumes load: "fst (loadKeyStore rt env w) = Inr (json_of_KeyStore ks)"
    and ok: "creation_unhindered env"
  shows "\<exists>ks' w'. createNewKeyPair rt env w = (Inr ks', w')"
proof -
  from ok obtain kp where "generateKey_result env = Inr kp"
    and "exportKey_fault env ''pkcs8'' = None" and "exportKey_fault env ''spki'' = None"
    and "length (fst kp) \<le> argument_limit env" and "length (snd kp) \<le> argument_limit env"
    and d: "ensureDir_fault env = None" and wr: "\<And>p. writeTextFile_fault env p = None"
    by (auto simp: creation_unhindered_def key_generation_succeeds_def writes_succeed_def)
  then have g: "generateKeyPair env w0 =
      (Inr (pem_text (fst kp) ''PRIVATE KEY'', pem_text (snd kp) ''PUBLIC KEY''), w0)" for w0
    by (simp add: generateKeyPair_succeeds)
  show ?thesis
    by (simp add: createNewKeyPair_load [OF load] d Let_def g await_Inr saveKeyFiles_def
        saveKeyStore_def writeTextFile_ok [OF wr])
qed

lemma rotateKeys_succeeds:
  assumes load: "fst (loadKeyStore rt env w) = Inr (json_of_KeyStore ks)"
    and ok: "creation_unhindered env"
  shows "\<exists>ks' w'. rotateKeys rt env w = (Inr ks', w')"
proof (cases "keys ks = []")
  case True
  let ?w1 = "console_log ''No existing keys found, creating first key pair...''
               (snd (loadKeyStore rt env w))"
  have "files ?w1 = files w" by (simp add: console_log_simps loadKeyStore_frame)
  with load have "fst (loadKeyStore rt env ?w1) = Inr (json_of_KeyStore ks)"
    by (rule load_after_logs)
  from createNewKeyPair_succeeds [OF this ok] show ?thesis
    using True by (simp add: rotateKeys_load [OF load])
next
  case False
  let ?w3 = "console_log (''Preserving '' @ number_toString (int (length (keys ks))) @
                               '' previous key(s)'')
                    (console_log (''Rotating keys from version '' @
                                  number_toString (currentVersion ks) @ ''...'')
                       (snd (loadKeyStore rt env w)))"
  have "files ?w3 = files w" by (simp add: console_log_simps loadKeyStore_frame)
  with load have "fst (loadKeyStore rt env ?w3) = Inr (json_of_KeyStore ks)"
    by (rule load_after_logs)
  from createNewKeyPair_succeeds [OF this ok] show ?thesis
    using False by (auto simp add: rotateKeys_load [OF load] await_Inr)
qed


text \<open>
  Claim C3. Let the store the manager loads be the empty one. Then \<open>rotateKeys\<close> is
  \<open>createNewKeyPair\<close> (after one console line); it does not fail when the directory can
  be made, the key generator answers (with keys whose exported buffers the PEM
  conversion takes) and the writes go through; and the store it returns has
  \<open>currentVersion = 1\<close> and exactly one key, of version 1.
\<close>

theorem rotateKeys_bootstrap:
  assumes "fst (loadKeyStore rt env w) = Inr (json_of_KeyStore empty_store)"
  shows "rotateKeys rt env w =
       createNewKeyPair rt env
         (console_log ''No existing keys found, creating first key pair...''
            (snd (loadKeyStore rt env w))) \<and>
     (creation_unhindered env \<longrightarrow> succeeded (fst (rotateKeys rt env w))) \<and>
     (\<forall>ks' w'. rotateKeys rt env w = (Inr ks', w') \<longrightarrow>
        currentVersion ks' = 1 \<and> length (keys ks') = 1 \<and> version (hd (keys ks')) = 1)"
proof -
  have "rotateKeys rt env w =
       createNewKeyPair rt env
         (console_log ''No existing keys found, creating first key pair...''
            (snd (loadKeyStore rt env w)))"
    by (simp add: rotateKeys_load [OF assms] empty_store_def)
  moreover have "succeeded (fst (rotateKeys rt env w))" if "creation_unhindered env"
    using rotateKeys_succeeds [OF assms that] by (auto simp: succeeded_def)
  moreover have "currentVersion ks' = 1 \<and> length (keys ks') = 1 \<and> version (hd (keys ks')) = 1"
    if "rotateKeys rt env w = (Inr ks', w')" for ks' w'
    using rotateKeys_Inr [OF assms that] by (auto simp: empty_store_def)
  ultimately show ?thesis by blast
qed


section \<open>Numbers in file names\<close>

declare digits.simps [simp del]

lemma digits_value_snoc: "digits_value (s @ [c]) = 10 * digits_value s + (code_unit c - 48)"
  by (simp add: digits_value_def)

lemma digits_value_digits: "digits_value (digits n) = n"
proof (induction n rule: digits.induct)
  case (1 n)
  show ?case
  proof (cases "n < 10")
    case True
    then show ?thesis
      by (subst digits.simps) (simp add: digits_value_def code_unit_def)
  next
    case False
    then have "digits n = digits (n div 10) @ [char_of (48 + n mod 10)]"
      by (subst digits.simps) simp
    moreover have "code_unit (char_of (48 + n mod 10)) = 48 + n mod 10"
      by (simp add: code_unit_def)
    ultimately show ?thesis using 1 False by (simp add: digits_value_snoc)
  qed
qed

lemma digits_inj: "digits a = digits b \<Longrightarrow> a = b"
  by (metis digits_value_digits)

lemma digits_first: "\<exists>c cs. digits n = c # cs \<and> c \<noteq> CHR ''-''"
proof (induction n rule: digits.induct)
  case (1 n)
  show ?case
  proof (cases "n < 10")
    case True
    have "char_of (48 + n) \<noteq> CHR ''-''"
    proof
      assume "char_of (48 + n) = CHR ''-''"
      then have "of_char (char_of (48 + n)) = (of_char (CHR ''-'') :: nat)" by simp
      with True show False by simp
    qed
    with True show ?thesis by (subst digits.simps) simp
  next
    case False
    with 1 obtain c cs where "digits (n div 10) = c # cs" "c \<noteq> CHR ''-''" by auto
    with False show ?thesis by (subst digits.simps) simp
  qed
qed

lemma number_toString_inj: "number_toString a = number_toString b \<Longrightarrow> a = b"
proof -
  assume e: "number_toString a = number_toString b"
  obtain c cs where c: "digits (nat b) = c # cs" "c \<noteq> CHR ''-''" using digits_first by blast
  obtain d ds where d: "digits (nat a) = d # ds" "d \<noteq> CHR ''-''" using digits_first by blast
  show ?thesis
  proof (cases "a < 0")
    case True
    show ?thesis
    proof (cases "b < 0")
      case True
      with \<open>a < 0\<close> e have "digits (nat (- a)) = digits (nat (- b))"
        by (simp add: number_toString_def)
      then have "nat (- a) = nat (- b)" by (rule digits_inj)
      with True \<open>a < 0\<close> show ?thesis by simp
    next
      case False
      with True e c show ?thesis by (simp add: number_toString_def)
    qed
  next
    case False
    show ?thesis
    proof (cases "b < 0")
      case True
      with False e d show ?thesis by (simp add: number_toString_def)
    next
      case bn: False
      with False e have "digits (nat a) = digits (nat b)"
        by (simp add: number_toString_def)
      then have "nat a = nat b" by (rule digits_inj)
      with False bn show ?thesis by simp
    qed
  qed
qed

lemma private_key_path_inj: "private_key_path a = private_key_path b \<longleftrightarrow> a = b"
  by (auto simp: private_key_path_def join_def dest: number_toString_inj)

lemma public_key_path_inj: "public_key_path a = public_key_path b \<longleftrightarrow> a = b"
  by (auto simp: public_key_path_def join_def dest: number_toString_inj)

lemma key_paths_distinct:
  "private_key_path a \<noteq> public_key_path b" "public_key_path b \<noteq> private_key_path a"
  "private_key_path a \<noteq> KEY_STORE_FILE" "public_key_path a \<noteq> KEY_STORE_FILE"
  "KEY_STORE_FILE \<noteq> private_key_path a" "KEY_STORE_FILE \<noteq> public_key_path a"
  by (simp_all add: private_key_path_def public_key_path_def KEY_STORE_FILE_def join_def)

section \<open>The store invariant\<close>

lemma store_invariant_iff:
  "store_invariant ks \<longleftrightarrow> 0 \<le> currentVersion ks \<and> map version (keys ks) = [1..currentVersion ks]"
proof
  assume s: "store_invariant ks"
  then have m: "map version (keys ks) = [1..currentVersion ks]"
    and c: "currentVersion ks = max_version (keys ks)"
    by (simp_all add: store_invariant_def)
  have "0 \<le> currentVersion ks"
  proof (cases "keys ks = []")
    case True
    with c show ?thesis by (simp add: max_version_def)
  next
    case False
    then have "[1..currentVersion ks] \<noteq> []" using m by (metis map_is_Nil_conv)
    then show ?thesis by (simp add: upto_Nil)
  qed
  with m show "0 \<le> currentVersion ks \<and> map version (keys ks) = [1..currentVersion ks]" by simp
next
  assume a: "0 \<le> currentVersion ks \<and> map version (keys ks) = [1..currentVersion ks]"
  then have m: "map version (keys ks) = [1..currentVersion ks]" by simp
  have "currentVersion ks = max_version (keys ks)"
  proof (cases "keys ks = []")
    case True
    then have "[1..currentVersion ks] = []" using m by simp
    then have "currentVersion ks < 1" by (simp add: upto_Nil)
    with a True show ?thesis by (simp add: max_version_def)
  next
    case False
    then have "[1..currentVersion ks] \<noteq> []" using m by (metis map_is_Nil_conv)
    then have "1 \<le> currentVersion ks" by (simp add: upto_Nil)
    then have "Max {1..currentVersion ks} = currentVersion ks" by (intro Max_eqI) auto
    moreover have "set (map version (keys ks)) = {1..currentVersion ks}"
      unfolding m by simp
    ultimately show ?thesis using False by (simp add: max_version_def)
  qed
  moreover have "distinct (map version (keys ks))" unfolding m by simp
  ultimately show "store_invariant ks" using m by (simp add: store_invariant_def)
qed

lemma store_invariant_empty: "store_invariant empty_store"
  by (simp add: store_invariant_iff empty_store_def)

lemma store_invariant_extend:
  assumes "store_invariant ks"
  shows "store_invariant
     \<lparr>currentVersion = currentVersion ks + 1,
      keys = keys ks @ [\<lparr>privateKey = priv, publicKey = pub, createdAt = t,
                         version = currentVersion ks + 1\<rparr>]\<rparr>"
proof -
  from assms have a: "0 \<le> currentVersion ks" "map version (keys ks) = [1..currentVersion ks]"
    by (simp_all add: store_invariant_iff)
  have "[1..currentVersion ks + 1] = [1..currentVersion ks] @ [currentVersion ks + 1]"
    using a(1) upto_rec2 [of 1 "currentVersion ks + 1"] by simp
  then show ?thesis using a by (simp add: store_invariant_iff)
qed

lemma load_invariant:
  assumes "persisted_invariant rt w"
  shows "\<exists>ks. fst (loadKeyStore rt env w) = Inr (json_of_KeyStore ks) \<and> store_invariant ks"
proof -
  have e: "\<exists>ks. json_of_KeyStore empty_store = json_of_KeyStore ks \<and> store_invariant ks"
    using store_invariant_empty by blast
  have p: "\<exists>ks. v = json_of_KeyStore ks \<and> store_invariant ks"
    if "files w KEY_STORE_FILE = Some data" "JSON_parse rt data = Some v" for data v
  proof -
    from assms that have "json_store_invariant v" by (simp add: persisted_invariant_def)
    then obtain ks where "asKeyStore v = Some ks" "store_invariant ks"
      by (auto simp: json_store_invariant_def split: option.splits)
    then show ?thesis using asKeyStore_Some by blast
  qed
  show ?thesis
    using e p by (simp add: loadKeyStore_eq split: option.splits)
qed

lemma persisted_invariant_saved:
  assumes "codec_round_trip rt" "store_invariant ks"
    and "files w KEY_STORE_FILE = Some (JSON_stringify rt (json_of_KeyStore ks))"
  shows "persisted_invariant rt w"
  using assms by (simp add: persisted_invariant_def codec_round_trip_def json_store_invariant_def
      asKeyStore_json)

lemma returning_json_Inr:
  "returning_json r = (Inr j, w') \<Longrightarrow> \<exists>ks'. r = (Inr ks', w') \<and> j = json_of_KeyStore ks'"
  by (cases r) (auto simp: returning_json_def split: sum.splits)

lemma created_invariant:
  assumes law: "codec_round_trip rt" and ks: "store_invariant ks"
    and k: "ks' = \<lparr>currentVersion = currentVersion ks + 1,
            keys = keys ks @ [\<lparr>privateKey = priv, publicKey = pub, createdAt = t,
                               version = currentVersion ks + 1\<rparr>]\<rparr>"
    and fs: "files w' = (files w)(p1 \<mapsto> priv, p2 \<mapsto> pub,
                          KEY_STORE_FILE \<mapsto> JSON_stringify rt (json_of_KeyStore ks'))"
  shows "json_store_invariant (json_of_KeyStore ks') \<and> persisted_invariant rt w'"
proof -
  have f: "files w' KEY_STORE_FILE = Some (JSON_stringify rt (json_of_KeyStore ks'))"
    by (subst fs) simp
  have i: "store_invariant ks'" unfolding k using ks by (rule store_invariant_extend)
  then have "json_store_invariant (json_of_KeyStore ks')"
    by (simp add: json_store_invariant_def asKeyStore_json)
  moreover have "persisted_invariant rt w'" using law i f by (rule persisted_invariant_saved)
  ultimately show ?thesis ..
qed

lemma created_invariant_ex:
  assumes law: "codec_round_trip rt" and ks: "store_invariant ks"
    and ex: "\<exists>priv pub.
     ks' = \<lparr>currentVersion = currentVersion ks + 1,
            keys = keys ks @ [\<lparr>privateKey = priv, publicKey = pub, createdAt = t,
                               version = currentVersion ks + 1\<rparr>]\<rparr> \<and>
     files w' = (files w)(p1 \<mapsto> priv, p2 \<mapsto> pub,
                          KEY_STORE_FILE \<mapsto> JSON_stringify rt (json_of_KeyStore ks')) \<and>
     file_writes (trace w') = file_writes (trace w) @ [p1, p2, KEY_STORE_FILE]"
  shows "json_store_invariant (json_of_KeyStore ks') \<and> persisted_invariant rt w'"
proof -
  from ex obtain priv pub where
    "ks' = \<lparr>currentVersion = currentVersion ks + 1,
            keys = keys ks @ [\<lparr>privateKey = priv, publicKey = pub, createdAt = t,
                               version = currentVersion ks + 1\<rparr>]\<rparr>"
    "files w' = (files w)(p1 \<mapsto> priv, p2 \<mapsto> pub,
                          KEY_STORE_FILE \<mapsto> JSON_stringify rt (json_of_KeyStore ks'))"
    by iprover
  with law ks show ?thesis by (rule created_invariant)
qed

lemma createNewKeyPair_invariant:
  assumes law: "codec_round_trip rt" and ks: "store_invariant ks"
    and load: "fst (loadKeyStore rt env w) = Inr (json_of_KeyStore ks)"
    and c: "createNewKeyPair rt env w = (Inr ks', w')"
  shows "json_store_invariant (json_of_KeyStore ks') \<and> persisted_invariant rt w'"
  by (rule created_invariant_ex [OF law ks createNewKeyPair_Inr [OF load c]])

lemma rotateKeys_invariant:
  assumes law: "codec_round_trip rt" and ks: "store_invariant ks"
    and load: "fst (loadKeyStore rt env w) = Inr (json_of_KeyStore ks)"
    and c: "rotateKeys rt env w = (Inr ks', w')"
  shows "json_store_invariant (json_of_KeyStore ks') \<and> persisted_invariant rt w'"
  by (rule created_invariant_ex [OF law ks rotateKeys_Inr [OF load c]])

lemma perform_invariant:
  assumes law: "codec_round_trip rt" and inv: "persisted_invariant rt w"
    and res: "perform rt op env w = (Inr j, w')"
  shows "json_store_invariant j \<and> persisted_invariant rt w'"
proof -
  from load_invariant [OF inv, of env] obtain ks where
    load: "fst (loadKeyStore rt env w) = Inr (json_of_KeyStore ks)" and ks: "store_invariant ks"
    by (elim exE conjE)
  show ?thesis
  proof (cases op)
    case LoadStore
    with res have l: "loadKeyStore rt env w = (Inr j, w')" by (simp add: perform_def)
    then have "j = json_of_KeyStore ks" using load by simp
    then have "json_store_invariant j" using ks by (simp add: json_store_invariant_def asKeyStore_json)
    moreover have "files w' = files w" using l loadKeyStore_frame(1) [of rt env w] by simp
    then have "persisted_invariant rt w'" using inv by (simp add: persisted_invariant_def)
    ultimately show ?thesis ..
  next
    case CreateNewKeyPair
    with res have "returning_json (createNewKeyPair rt env w) = (Inr j, w')"
      by (simp add: perform_def)
    from returning_json_Inr [OF this]
    obtain ks' where c: "createNewKeyPair rt env w = (Inr ks', w')" and j: "j = json_of_KeyStore ks'"
      by (elim exE conjE)
    show ?thesis unfolding j using law ks load c by (rule createNewKeyPair_invariant)
  next
    case Rotate
    with res have "returning_json (rotateKeys rt env w) = (Inr j, w')"
      by (simp add: perform_def)
    from returning_json_Inr [OF this]
    obtain ks' where c: "rotateKeys rt env w = (Inr ks', w')" and j: "j = json_of_KeyStore ks'"
      by (elim exE conjE)
    show ?thesis unfolding j using law ks load c by (rule rotateKeys_invariant)
  qed
qed

lemma run_invariant_step:
  assumes "codec_round_trip rt"
  shows "persisted_invariant rt w \<Longrightarrow> run rt ops w = (rs, w') \<Longrightarrow> list_all succeeded rs \<Longrightarrow>
     list_all returned_invariant rs \<and> persisted_invariant rt w'"
proof (induction ops arbitrary: w rs)
  case Nil
  then show ?case by simp
next
  case (Cons a ops)
  obtain op env where a: "a = (op, env)" by (cases a)
  obtain r w1 where p: "perform rt op env w = (r, w1)" by (cases "perform rt op env w")
  obtain rs1 w2 where q: "run rt ops w1 = (rs1, w2)" by (cases "run rt ops w1")
  from Cons.prems(2) a p q have rs: "rs = r # rs1" and w': "w' = w2" by simp_all
  from Cons.prems(3) rs have sr: "succeeded r" and s1: "list_all succeeded rs1" by simp_all
  from sr obtain j where r: "r = Inr j" by (cases r) (simp_all add: succeeded_def)
  from perform_invariant [OF assms Cons.prems(1) p [unfolded r]]
  have j: "json_store_invariant j" and i1: "persisted_invariant rt w1" by simp_all
  from q w' have q': "run rt ops w1 = (rs1, w')" by simp
  from Cons.IH [OF i1 q' s1] have "list_all returned_invariant rs1" "persisted_invariant rt w'"
    by simp_all
  moreover have "returned_invariant r" using r j by (simp add: returned_invariant_def)
  ultimately show ?case using rs by simp
qed

lemma run_succeeds:
  assumes law: "codec_round_trip rt"
  shows "persisted_invariant rt w \<Longrightarrow> list_all (\<lambda>(op, env). creation_unhindered env) ops \<Longrightarrow>
     list_all succeeded (fst (run rt ops w))"
proof (induction ops arbitrary: w)
  case Nil
  then show ?case by simp
next
  case (Cons a ops)
  obtain op env where a: "a = (op, env)" by (cases a)
  from Cons.prems(2) a have ok: "creation_unhindered env"
    and rest: "list_all (\<lambda>(op, env). creation_unhindered env) ops" by simp_all
  from load_invariant [OF Cons.prems(1), of env] obtain ks where
    load: "fst (loadKeyStore rt env w) = Inr (json_of_KeyStore ks)" by (elim exE conjE)
  have "\<exists>j w1. perform rt op env w = (Inr j, w1)"
  proof (cases op)
    case LoadStore
    then show ?thesis using load by (cases "loadKeyStore rt env w") (simp add: perform_def)
  next
    case CreateNewKeyPair
    then show ?thesis using createNewKeyPair_succeeds [OF load ok]
      by (auto simp: perform_def returning_json_def)
  next
    case Rotate
    then show ?thesis using rotateKeys_succeeds [OF load ok]
      by (auto simp: perform_def returning_json_def)
  qed
  then obtain j w1 where p: "perform rt op env w = (Inr j, w1)" by (elim exE)
  from perform_invariant [OF law Cons.prems(1) p] have "persisted_invariant rt w1" by simp
  from Cons.IH [OF this rest] have "list_all succeeded (fst (run rt ops w1))" .
  moreover have "succeeded (Inr j :: error + json)" by (simp add: succeeded_def)
  ultimately show ?case
    using a p by (cases "run rt ops w1") simp
qed

text \<open>
  Claim C1. A run starts in a world whose persisted store satisfies the invariant (a
  world with no store file, the empty store, is one) and every operation of it (loading,
  creating, rotating) succeeds. Then every store an operation returned satisfies the
  invariant: its \<open>currentVersion\<close> is the largest version among its keys (0 when it has
  none), the versions are distinct, and in order they are \<open>1, 2, ..., currentVersion\<close>.
  The store persisted at the end satisfies it too, so each operation preserves it (a run
  of one operation). The platform's JSON functions are asked to read back what they
  wrote.
\<close>

theorem store_invariant_preserved:
  assumes "codec_round_trip rt"
    and "persisted_invariant rt w"
    and "run rt ops w = (rs, w')"
    and "list_all succeeded rs"
  shows "list_all returned_invariant rs \<and> persisted_invariant rt w'"
  using assms by (rule run_invariant_step)

section \<open>Loading, saving, and the examples\<close>

lemma stroke_codec_round_trip: "codec_round_trip stroke_codec"
  by (simp add: codec_round_trip_def stroke_codec_def)

lemma initial_world_invariant: "persisted_invariant rt initial_world"
  by (simp add: persisted_invariant_def initial_world_def)

lemma fair_weather_unhindered: "creation_unhindered fair_weather"
  by (simp add: creation_unhindered_def key_generation_succeeds_def writes_succeed_def
      fair_weather_def)

lemma stroke_codec_parse: "JSON_parse stroke_codec (JSON_stringify stroke_codec j) = Some j"
  by (simp add: stroke_codec_def)

lemma fair_weather_simps:
  "ensureDir_fault fair_weather = None" "exists_fault fair_weather = None"
  "readTextFile_fault fair_weather = None"
  "generateKey_result fair_weather = Inr ([0x30, 0x2E, 0x02, 0x01, 0x00], [0x30, 0x2A, 0x30, 0x05])"
  "exportKey_fault fair_weather f = None" "now fair_weather = ''2025-01-01T00:00:00.000Z''"
  "writeTextFile_fault fair_weather p = None" "argument_limit fair_weather = 65535"
  by (simp_all add: fair_weather_def)


lemma initial_world_load:
  "fst (loadKeyStore rt fair_weather initial_world) = Inr (json_of_KeyStore empty_store)"
  by (simp add: loadKeyStore_eq initial_world_def fair_weather_simps)

lemma createNewKeyPair_fair_weather:
  assumes "fst (loadKeyStore rt fair_weather w) = Inr (json_of_KeyStore ks)"
  shows "fst (createNewKeyPair rt fair_weather w) =
     Inr \<lparr>currentVersion = currentVersion ks + 1,
          keys = keys ks @
            [\<lparr>privateKey = pem_text [0x30, 0x2E, 0x02, 0x01, 0x00] ''PRIVATE KEY'',
              publicKey = pem_text [0x30, 0x2A, 0x30, 0x05] ''PUBLIC KEY'',
              createdAt = ''2025-01-01T00:00:00.000Z'',
              version = currentVersion ks + 1\<rparr>]\<rparr>"
  by (simp add: createNewKeyPair_load [OF assms] fair_weather_simps Let_def
      generateKeyPair_succeeds await_Inr saveKeyFiles_def saveKeyStore_def writeTextFile_ok)

lemma rotateKeys_fair_weather:
  assumes load: "fst (loadKeyStore rt fair_weather w) = Inr (json_of_KeyStore ks)"
  shows "fst (rotateKeys rt fair_weather w) =
     Inr \<lparr>currentVersion = currentVersion ks + 1,
          keys = keys ks @
            [\<lparr>privateKey = pem_text [0x30, 0x2E, 0x02, 0x01, 0x00] ''PRIVATE KEY'',
              publicKey = pem_text [0x30, 0x2A, 0x30, 0x05] ''PUBLIC KEY'',
              createdAt = ''2025-01-01T00:00:00.000Z'',
              version = currentVersion ks + 1\<rparr>]\<rparr>"
proof -
  have l: "fst (loadKeyStore rt fair_weather w1) = Inr (json_of_KeyStore ks)"
    if "files w1 = files w" for w1
    using load that by (rule load_after_logs)
  have c: "fst (createNewKeyPair rt fair_weather w1) =
     Inr \<lparr>currentVersion = currentVersion ks + 1,
          keys = keys ks @
            [\<lparr>privateKey = pem_text [0x30, 0x2E, 0x02, 0x01, 0x00] ''PRIVATE KEY'',
              publicKey = pem_text [0x30, 0x2A, 0x30, 0x05] ''PUBLIC KEY'',
              createdAt = ''2025-01-01T00:00:00.000Z'',
              version = currentVersion ks + 1\<rparr>]\<rparr>"
    if "files w1 = files w" for w1
    using l [OF that] by (rule createNewKeyPair_fair_weather)
  show ?thesis
  proof (cases "keys ks = []")
    case True
    then show ?thesis
      by (simp add: rotateKeys_load [OF load] c console_log_simps loadKeyStore_frame)
  next
    case False
    let ?w3 = "console_log (''Preserving '' @ number_toString (int (length (keys ks))) @
                               '' previous key(s)'')
                    (console_log (''Rotating keys from version '' @
                                  number_toString (currentVersion ks) @ ''...'')
                       (snd (loadKeyStore rt fair_weather w)))"
    have "files ?w3 = files w" by (simp add: console_log_simps loadKeyStore_frame)
    from c [OF this] have "await (createNewKeyPair rt fair_weather ?w3) k =
        k \<lparr>currentVersion = currentVersion ks + 1,
          keys = keys ks @
            [\<lparr>privateKey = pem_text [0x30, 0x2E, 0x02, 0x01, 0x00] ''PRIVATE KEY'',
              publicKey = pem_text [0x30, 0x2A, 0x30, 0x05] ''PUBLIC KEY'',
              createdAt = ''2025-01-01T00:00:00.000Z'',
              version = currentVersion ks + 1\<rparr>]\<rparr> (snd (createNewKeyPair rt fair_weather ?w3))"
      for k :: "KeyStore \<Rightarrow> world \<Rightarrow> KeyStore outcome"
      by (rule await_fst)
    then show ?thesis using False by (simp add: rotateKeys_load [OF load])
  qed
qed


theorem rotateKeys_bootstrap_witness:
  "fst (loadKeyStore stroke_codec fair_weather initial_world) = Inr (json_of_KeyStore empty_store) \<and>
   creation_unhindered fair_weather \<and>
   rotateKeys stroke_codec fair_weather initial_world =
     createNewKeyPair stroke_codec fair_weather
       (console_log ''No existing keys found, creating first key pair...''
          (snd (loadKeyStore stroke_codec fair_weather initial_world))) \<and>
   succeeded (fst (rotateKeys stroke_codec fair_weather initial_world)) \<and>
   fst (rotateKeys stroke_codec fair_weather initial_world) =
     Inr \<lparr>currentVersion = 1,
          keys = [\<lparr>privateKey = pem_text [0x30, 0x2E, 0x02, 0x01, 0x00] ''PRIVATE KEY'',
                   publicKey = pem_text [0x30, 0x2A, 0x30, 0x05] ''PUBLIC KEY'',
                   createdAt = ''2025-01-01T00:00:00.000Z'', version = 1\<rparr>]\<rparr>"
proof -
  have "fst (rotateKeys stroke_codec fair_weather initial_world) =
     Inr \<lparr>currentVersion = 1,
          keys = [\<lparr>privateKey = pem_text [0x30, 0x2E, 0x02, 0x01, 0x00] ''PRIVATE KEY'',
                   publicKey = pem_text [0x30, 0x2A, 0x30, 0x05] ''PUBLIC KEY'',
                   createdAt = ''2025-01-01T00:00:00.000Z'', version = 1\<rparr>]\<rparr>"
    using rotateKeys_fair_weather [OF initial_world_load, of stroke_codec]
    by (simp add: empty_store_def)
  with rotateKeys_bootstrap [OF initial_world_load, of stroke_codec] initial_world_load
    fair_weather_unhindered
  show ?thesis by simp
qed



text \<open>
  Claim C5. \<open>loadKeyStore\<close> never throws, whatever the file system and the platform do,
  and it changes no file. When the store file is missing it returns the empty store
  and prints nothing. When the file cannot be looked up or cannot be read, and when its
  text does not parse, it returns the empty store and prints one warning.
\<close>

theorem loadKeyStore_never_raises:
  "succeeded (fst (loadKeyStore rt env w)) \<and>
   files (snd (loadKeyStore rt env w)) = files w \<and>
   (exists_fault env = None \<and> files w KEY_STORE_FILE = None \<longrightarrow>
      loadKeyStore rt env w = (Inr (json_of_KeyStore empty_store), w)) \<and>
   (exists_fault env \<noteq> None \<or>
    (files w KEY_STORE_FILE \<noteq> None \<and> readTextFile_fault env \<noteq> None) \<longrightarrow>
      loadKeyStore rt env w =
        (Inr (json_of_KeyStore empty_store),
         console_warn ''Could not load keystore, creating new one'' w)) \<and>
   (\<forall>data. exists_fault env = None \<and> readTextFile_fault env = None \<and>
      files w KEY_STORE_FILE = Some data \<and> JSON_parse rt data = None \<longrightarrow>
      loadKeyStore rt env w =
        (Inr (json_of_KeyStore empty_store),
         console_warn ''Could not load keystore, creating new one'' w))"
  by (auto simp: loadKeyStore_eq succeeded_def warned_def console_warn_def split: option.splits)

theorem loadKeyStore_never_raises_witness:
  "loadKeyStore table_codec fair_weather initial_world =
     (Inr (json_of_KeyStore empty_store), initial_world) \<and>
   loadKeyStore table_codec (fair_weather\<lparr>readTextFile_fault := Some (Deno_error ''PermissionDenied'')\<rparr>)
       (world_with_store_text ''42'') =
     (Inr (json_of_KeyStore empty_store),
      console_warn ''Could not load keystore, creating new one'' (world_with_store_text ''42'')) \<and>
   JSON_parse table_codec ''{ curr'' = None \<and>
   loadKeyStore table_codec fair_weather (world_with_store_text ''{ curr'') =
     (Inr (json_of_KeyStore empty_store),
      console_warn ''Could not load keystore, creating new one'' (world_with_store_text ''{ curr'')) \<and>
   warnings (trace (snd (loadKeyStore table_codec fair_weather (world_with_store_text ''{ curr'')))) =
     [''Could not load keystore, creating new one'']"
proof -
  have p: "JSON_parse table_codec ''{ curr'' = None" by (simp add: table_codec_def)
  have f: "files (world_with_store_text d) KEY_STORE_FILE = Some d" for d
    by (simp add: world_with_store_text_def)
  have i: "files initial_world KEY_STORE_FILE = None" by (simp add: initial_world_def)
  have m: "loadKeyStore table_codec fair_weather initial_world =
     (Inr (json_of_KeyStore empty_store), initial_world)"
    using loadKeyStore_never_raises [of table_codec fair_weather initial_world] i
    by (simp add: fair_weather_simps)
  have u: "loadKeyStore table_codec (fair_weather\<lparr>readTextFile_fault := Some (Deno_error ''PermissionDenied'')\<rparr>)
       (world_with_store_text ''42'') =
     (Inr (json_of_KeyStore empty_store),
      console_warn ''Could not load keystore, creating new one'' (world_with_store_text ''42''))"
    using loadKeyStore_never_raises [of table_codec
        "fair_weather\<lparr>readTextFile_fault := Some (Deno_error ''PermissionDenied'')\<rparr>"
        "world_with_store_text ''42''"] f [of "''42''"]
    by simp
  have c: "loadKeyStore table_codec fair_weather (world_with_store_text ''{ curr'') =
     (Inr (json_of_KeyStore empty_store),
      console_warn ''Could not load keystore, creating new one'' (world_with_store_text ''{ curr''))"
    using loadKeyStore_never_raises [of table_codec fair_weather "world_with_store_text ''{ curr''"]
      f [of "''{ curr''"] p
    by (simp add: fair_weather_simps)
  have w: "warnings (trace (snd (loadKeyStore table_codec fair_weather (world_with_store_text ''{ curr'')))) =
     [''Could not load keystore, creating new one'']"
    unfolding c by (simp add: console_warn_def world_with_store_text_def initial_world_def warnings_def)
  show ?thesis by (intro conjI) (rule m u p c w)+
qed

text \<open>
  Claim C10. \<open>loadKeyStore\<close> returns whatever the text of the store file parses to; it
  does not look at the shape. So a text that parses to a value that is no key store (a
  number, an object without \<open>keys\<close>) makes it return that value, not the empty store.
\<close>

theorem loadKeyStore_no_validation:
  assumes "exists_fault env = None" and "readTextFile_fault env = None"
    and "files w KEY_STORE_FILE = Some data" and "JSON_parse rt data = Some j"
  shows "loadKeyStore rt env w = (Inr j, w) \<and>
     (asKeyStore j = None \<longrightarrow> j \<noteq> json_of_KeyStore empty_store)"
  using assms by (auto simp: loadKeyStore_eq asKeyStore_json)

theorem loadKeyStore_no_validation_witness:
  "JSON_parse table_codec ''42'' = Some (JNum 42) \<and> asKeyStore (JNum 42) = None \<and>
   loadKeyStore table_codec fair_weather (world_with_store_text ''42'') =
     (Inr (JNum 42), world_with_store_text ''42'') \<and>
   JNum 42 \<noteq> json_of_KeyStore empty_store \<and>
   JSON_parse table_codec ''{}'' = Some (JObj []) \<and> asKeyStore (JObj []) = None \<and>
   loadKeyStore table_codec fair_weather (world_with_store_text ''{}'') =
     (Inr (JObj []), world_with_store_text ''{}'') \<and>
   JObj [] \<noteq> json_of_KeyStore empty_store"
proof -
  have f: "files (world_with_store_text d) KEY_STORE_FILE = Some d" for d
    by (simp add: world_with_store_text_def)
  have p1: "JSON_parse table_codec ''42'' = Some (JNum 42)" by (simp add: table_codec_def)
  have p2: "JSON_parse table_codec ''{}'' = Some (JObj [])" by (simp add: table_codec_def)
  have s1: "asKeyStore (JNum 42) = None" by (simp add: asKeyStore_def)
  have s2: "asKeyStore (JObj []) = None" by (simp add: asKeyStore_def)
  from loadKeyStore_no_validation [OF fair_weather_simps(2) fair_weather_simps(3) f p1]
    loadKeyStore_no_validation [OF fair_weather_simps(2) fair_weather_simps(3) f p2]
    p1 p2 s1 s2
  show ?thesis by simp
qed

text \<open>
  Claim C4, as the code has it. \<open>saveKeyStore\<close> is one \<open>Deno.writeTextFile\<close> on the store
  path itself: no other path is created or changed (there is no temporary file and no
  rename), and at most one write is recorded, on the store file. When it succeeds the
  store file holds exactly the serialized store. When the write is interrupted after
  \<open>n\<close> characters, \<open>saveKeyStore\<close> fails and the store file holds the first \<open>n\<close>
  characters of the serialized store; when the file cannot be opened, it fails and
  nothing has changed.
\<close>

theorem saveKeyStore_direct_write:
  "(\<forall>path. path \<noteq> KEY_STORE_FILE \<longrightarrow>
      files (snd (saveKeyStore rt env ks w)) path = files w path) \<and>
   dirs (snd (saveKeyStore rt env ks w)) = dirs w \<and>
   (file_writes (trace (snd (saveKeyStore rt env ks w))) = file_writes (trace w) \<or>
    file_writes (trace (snd (saveKeyStore rt env ks w))) =
      file_writes (trace w) @ [KEY_STORE_FILE]) \<and>
   (succeeded (fst (saveKeyStore rt env ks w)) \<longrightarrow>
      files (snd (saveKeyStore rt env ks w)) KEY_STORE_FILE =
        Some (JSON_stringify rt (json_of_KeyStore ks))) \<and>
   (\<forall>e n. writeTextFile_fault env KEY_STORE_FILE = Some (Interrupted e n) \<longrightarrow>
      fst (saveKeyStore rt env ks w) = Inl e \<and>
      files (snd (saveKeyStore rt env ks w)) KEY_STORE_FILE =
        Some (take n (JSON_stringify rt (json_of_KeyStore ks)))) \<and>
   (\<forall>e. writeTextFile_fault env KEY_STORE_FILE = Some (Denied e) \<longrightarrow>
      saveKeyStore rt env ks w = (Inl e, w))"
  by (auto simp: saveKeyStore_def writeTextFile_def succeeded_def file_writes_simps
      split: option.splits write_fault.splits)

theorem saveKeyStore_direct_write_witness:
  "succeeded (fst (saveKeyStore table_codec fair_weather empty_store (world_with_store_text ''42''))) \<and>
   files (snd (saveKeyStore table_codec fair_weather empty_store (world_with_store_text ''42'')))
       KEY_STORE_FILE =
     Some (''{'' @ [LF] @ ''  '' @ [CHR 0x22] @ ''currentVersion'' @ [CHR 0x22] @ '': 0,'' @ [LF] @
           ''  '' @ [CHR 0x22] @ ''keys'' @ [CHR 0x22] @ '': []'' @ [LF] @ ''}'')"
proof -
  have s: "succeeded (fst (saveKeyStore table_codec fair_weather empty_store (world_with_store_text ''42'')))"
    by (simp add: saveKeyStore_def writeTextFile_def fair_weather_simps succeeded_def)
  have t: "JSON_stringify table_codec (json_of_KeyStore empty_store) =
     ''{'' @ [LF] @ ''  '' @ [CHR 0x22] @ ''currentVersion'' @ [CHR 0x22] @ '': 0,'' @ [LF] @
           ''  '' @ [CHR 0x22] @ ''keys'' @ [CHR 0x22] @ '': []'' @ [LF] @ ''}''"
    by (simp add: table_codec_def)
  from saveKeyStore_direct_write [of table_codec fair_weather empty_store "world_with_store_text ''42''"] s
  have "files (snd (saveKeyStore table_codec fair_weather empty_store (world_with_store_text ''42'')))
       KEY_STORE_FILE = Some (JSON_stringify table_codec (json_of_KeyStore empty_store))"
    by (elim conjE) simp
  with s show ?thesis unfolding t by (intro conjI)
qed

text \<open>
  Claim C4 as it is stated fails: a write of the store file interrupted after ten
  characters leaves the store path itself holding those ten characters, which is
  neither the old text nor the new one and does not parse; the only file written was
  the store file.
\<close>

theorem saveKeyStore_atomic_counterexample:
  "fst (saveKeyStore table_codec store_write_interrupted empty_store (world_with_store_text ''42'')) =
     Inl (Deno_error ''Interrupted'') \<and>
   files (snd (saveKeyStore table_codec store_write_interrupted empty_store
                 (world_with_store_text ''42''))) KEY_STORE_FILE =
     Some (''{'' @ [LF] @ ''  '' @ [CHR 0x22] @ ''curre'') \<and>
   files (world_with_store_text ''42'') KEY_STORE_FILE = Some ''42'' \<and>
   JSON_stringify table_codec (json_of_KeyStore empty_store) \<noteq>
     ''{'' @ [LF] @ ''  '' @ [CHR 0x22] @ ''curre'' \<and>
   JSON_parse table_codec (''{'' @ [LF] @ ''  '' @ [CHR 0x22] @ ''curre'') = None \<and>
   file_writes (trace (snd (saveKeyStore table_codec store_write_interrupted empty_store
                              (world_with_store_text ''42'')))) = [KEY_STORE_FILE]"
  by (simp add: saveKeyStore_def writeTextFile_def store_write_interrupted_def table_codec_def
      world_with_store_text_def initial_world_def file_writes_simps)

section \<open>Key files are written once\<close>

lemma load_version:
  assumes law: "codec_round_trip rt" and rd: "reads_succeed env"
    and pv: "persisted_version rt w v"
  shows "\<exists>ks. fst (loadKeyStore rt env w) = Inr (json_of_KeyStore ks) \<and> currentVersion ks = v"
proof (cases "files w KEY_STORE_FILE")
  case None
  with pv have "v = 0" by (simp add: persisted_version_def)
  with None rd have "fst (loadKeyStore rt env w) = Inr (json_of_KeyStore empty_store) \<and>
      currentVersion empty_store = v"
    by (simp add: loadKeyStore_eq reads_succeed_def empty_store_def)
  then show ?thesis by (rule exI)
next
  case (Some data)
  with pv obtain ks where d: "data = JSON_stringify rt (json_of_KeyStore ks)"
    and c: "currentVersion ks = v"
    by (auto simp: persisted_version_def)
  from law d have "JSON_parse rt data = Some (json_of_KeyStore ks)"
    by (simp add: codec_round_trip_def)
  with Some rd c have "fst (loadKeyStore rt env w) = Inr (json_of_KeyStore ks) \<and>
      currentVersion ks = v"
    by (simp add: loadKeyStore_eq reads_succeed_def)
  then show ?thesis by (rule exI)
qed

lemma createNewKeyPair_Inl_frame:
  assumes load: "fst (loadKeyStore rt env w) = Inr (json_of_KeyStore ks)"
    and wr: "writes_succeed env"
    and res: "createNewKeyPair rt env w = (Inl e, w')"
  shows "files w' = files w \<and> file_writes (trace w') = file_writes (trace w)"
proof (cases "ensureDir_fault env")
  case (Some e0)
  with res show ?thesis by (simp add: createNewKeyPair_load [OF load])
next
  case None
  let ?v = "currentVersion ks + 1"
  let ?w1 = "console_log (''Keys directory ready ('' @ KEYS_DIR @ '')'')
               (w\<lparr>dirs := insert KEYS_DIR (dirs w)\<rparr>)"
  define w3 where "w3 = console_log (''Generating Ed25519 key pair (version '' @
               number_toString ?v @ '')...'') (snd (loadKeyStore rt env ?w1))"
  have f3: "files w3 = files w" and t3: "file_writes (trace w3) = file_writes (trace w)"
    by (simp_all add: w3_def console_log_simps loadKeyStore_frame file_writes_simps)
  from wr have ok: "writeTextFile_fault env p = None" for p by (simp add: writes_succeed_def)
  have r: "createNewKeyPair rt env w =
      await (generateKeyPair env w3) (\<lambda>(privateKey', publicKey') w4.
                await (saveKeyFiles env ?v privateKey' publicKey' w4) (\<lambda>_ w5.
                  let keyStore2 = \<lparr>currentVersion = ?v,
                        keys = keys ks @ [\<lparr>privateKey = privateKey', publicKey = publicKey',
                                           createdAt = now env, version = ?v\<rparr>]\<rparr>
                  in await (saveKeyStore rt env keyStore2 w5) (\<lambda>_ w6.
                       (Inr keyStore2,
                        console_log ''Key pair successfully generated (PKCS8/SPKI)'' w6))))"
    using None by (simp add: createNewKeyPair_load [OF load] Let_def w3_def)
  obtain g w4 where g: "generateKeyPair env w3 = (g, w4)" by (cases "generateKeyPair env w3")
  then have w4: "w4 = w3" using generateKeyPair_world [of env w3] by simp
  show ?thesis
  proof (cases g)
    case (Inl e1)
    with res r g w4 have "w' = w3" by (simp add: await_Inl)
    with f3 t3 show ?thesis by simp
  next
    case (Inr pp)
    with res r g w4 have False
      by (cases pp) (simp add: await_Inr saveKeyFiles_def saveKeyStore_def
          writeTextFile_ok [OF ok] Let_def)
    then show ?thesis ..
  qed
qed

lemma rotateKeys_Inl_frame:
  assumes load: "fst (loadKeyStore rt env w) = Inr (json_of_KeyStore ks)"
    and wr: "writes_succeed env"
    and res: "rotateKeys rt env w = (Inl e, w')"
  shows "files w' = files w \<and> file_writes (trace w') = file_writes (trace w)"
proof (cases "keys ks = []")
  case True
  define w1 where "w1 = console_log ''No existing keys found, creating first key pair...''
               (snd (loadKeyStore rt env w))"
  have f: "files w1 = files w" and t: "file_writes (trace w1) = file_writes (trace w)"
    by (simp_all add: w1_def console_log_simps loadKeyStore_frame file_writes_simps)
  have l: "fst (loadKeyStore rt env w1) = Inr (json_of_KeyStore ks)"
    using load f by (rule load_after_logs)
  have "createNewKeyPair rt env w1 = (Inl e, w')"
    using res True by (simp add: rotateKeys_load [OF load] w1_def)
  from createNewKeyPair_Inl_frame [OF l wr this] f t show ?thesis by simp
next
  case False
  define w3 where "w3 = console_log (''Preserving '' @ number_toString (int (length (keys ks))) @
                               '' previous key(s)'')
                    (console_log (''Rotating keys from version '' @
                                  number_toString (currentVersion ks) @ ''...'')
                       (snd (loadKeyStore rt env w)))"
  have f: "files w3 = files w" and t: "file_writes (trace w3) = file_writes (trace w)"
    by (simp_all add: w3_def console_log_simps loadKeyStore_frame file_writes_simps)
  have l: "fst (loadKeyStore rt env w3) = Inr (json_of_KeyStore ks)"
    using load f by (rule load_after_logs)
  obtain r w4 where c: "createNewKeyPair rt env w3 = (r, w4)"
    by (cases "createNewKeyPair rt env w3")
  from res False c [unfolded w3_def] have "r = Inl e \<and> w4 = w'"
    by (cases r) (simp_all add: rotateKeys_load [OF load] await_def)
  with c have "createNewKeyPair rt env w3 = (Inl e, w')" by simp
  from createNewKeyPair_Inl_frame [OF l wr this] f t show ?thesis by simp
qed

lemma count_list_snoc3:
  "count_list (xs @ [a, b, c]) y =
     count_list xs y + (if a = y then 1 else 0) + (if b = y then 1 else 0) + (if c = y then 1 else 0)"
  by simp

lemma key_files_written_next:
  assumes v: "0 \<le> v" and kw: "key_files_written w v"
    and t: "file_writes (trace w') = file_writes (trace w) @
        [private_key_path (v + 1), public_key_path (v + 1), KEY_STORE_FILE]"
  shows "key_files_written w' (v + 1)"
proof -
  have "count_list (file_writes (trace w')) (private_key_path N) =
          (if 1 \<le> N \<and> N \<le> v + 1 then 1 else 0) \<and>
        count_list (file_writes (trace w')) (public_key_path N) =
          (if 1 \<le> N \<and> N \<le> v + 1 then 1 else 0)" for N
  proof -
    from kw have o: "count_list (file_writes (trace w)) (private_key_path N) =
            (if 1 \<le> N \<and> N \<le> v then 1 else 0)"
      "count_list (file_writes (trace w)) (public_key_path N) =
            (if 1 \<le> N \<and> N \<le> v then 1 else 0)"
      by (simp_all add: key_files_written_def)
    show ?thesis
      unfolding t count_list_snoc3 o
      using v by (auto simp: private_key_path_inj public_key_path_inj key_paths_distinct)
  qed
  then show ?thesis by (simp add: key_files_written_def)
qed

lemma written_frame:
  assumes "persisted_version rt w v" "key_files_written w v"
    and "files w' = files w" "file_writes (trace w') = file_writes (trace w)"
  shows "persisted_version rt w' v \<and> key_files_written w' v"
  using assms by (simp add: persisted_version_def key_files_written_def)

lemma written_created:
  assumes pv: "persisted_version rt w v" and kw: "key_files_written w v"
    and cv: "currentVersion ks = v"
    and ex: "\<exists>priv pub.
     ks' = \<lparr>currentVersion = currentVersion ks + 1,
            keys = keys ks @ [\<lparr>privateKey = priv, publicKey = pub, createdAt = t,
                               version = currentVersion ks + 1\<rparr>]\<rparr> \<and>
     files w' = (files w)(private_key_path (currentVersion ks + 1) \<mapsto> priv,
                          public_key_path (currentVersion ks + 1) \<mapsto> pub,
                          KEY_STORE_FILE \<mapsto> JSON_stringify rt (json_of_KeyStore ks')) \<and>
     file_writes (trace w') = file_writes (trace w) @
        [private_key_path (currentVersion ks + 1), public_key_path (currentVersion ks + 1),
         KEY_STORE_FILE]"
  shows "persisted_version rt w' (v + 1) \<and> key_files_written w' (v + 1)"
proof -
  from pv have v: "0 \<le> v" by (simp add: persisted_version_def)
  from ex obtain priv pub where
    k: "ks' = \<lparr>currentVersion = currentVersion ks + 1,
            keys = keys ks @ [\<lparr>privateKey = priv, publicKey = pub, createdAt = t,
                               version = currentVersion ks + 1\<rparr>]\<rparr>"
    and fs: "files w' = (files w)(private_key_path (currentVersion ks + 1) \<mapsto> priv,
                          public_key_path (currentVersion ks + 1) \<mapsto> pub,
                          KEY_STORE_FILE \<mapsto> JSON_stringify rt (json_of_KeyStore ks'))"
    and tr: "file_writes (trace w') = file_writes (trace w) @
        [private_key_path (currentVersion ks + 1), public_key_path (currentVersion ks + 1),
         KEY_STORE_FILE]"
    by iprover
  have f: "files w' KEY_STORE_FILE = Some (JSON_stringify rt (json_of_KeyStore ks'))"
    by (subst fs) simp
  have c: "currentVersion ks' = v + 1" using k cv by simp
  have "persisted_version rt w' (v + 1)"
    unfolding persisted_version_def using v f c by auto
  moreover have "key_files_written w' (v + 1)"
    using v kw tr [unfolded cv] by (rule key_files_written_next)
  ultimately show ?thesis ..
qed

lemma perform_written:
  assumes law: "codec_round_trip rt" and rd: "reads_succeed env" and wr: "writes_succeed env"
    and pv: "persisted_version rt w v" and kw: "key_files_written w v"
  shows "\<exists>v'. persisted_version rt (snd (perform rt op env w)) v' \<and>
     key_files_written (snd (perform rt op env w)) v'"
proof -
  from load_version [OF law rd pv] obtain ks where
    load: "fst (loadKeyStore rt env w) = Inr (json_of_KeyStore ks)" and cv: "currentVersion ks = v"
    by (elim exE conjE)
  show ?thesis
  proof (cases op)
    case LoadStore
    have "persisted_version rt (snd (loadKeyStore rt env w)) v \<and>
        key_files_written (snd (loadKeyStore rt env w)) v"
      using pv kw loadKeyStore_frame(1) loadKeyStore_frame(3) by (rule written_frame)
    then show ?thesis using LoadStore by (auto simp: perform_def)
  next
    case CreateNewKeyPair
    obtain r w' where c: "createNewKeyPair rt env w = (r, w')"
      by (cases "createNewKeyPair rt env w")
    have "\<exists>v'. persisted_version rt w' v' \<and> key_files_written w' v'"
    proof (cases r)
      case (Inl e)
      from createNewKeyPair_Inl_frame [OF load wr c [unfolded Inl]]
      have "files w' = files w" "file_writes (trace w') = file_writes (trace w)" by simp_all
      with pv kw have "persisted_version rt w' v \<and> key_files_written w' v"
        by (rule written_frame)
      then show ?thesis by (rule exI)
    next
      case (Inr ks')
      have "persisted_version rt w' (v + 1) \<and> key_files_written w' (v + 1)"
        by (rule written_created [OF pv kw cv createNewKeyPair_Inr [OF load c [unfolded Inr]]])
      then show ?thesis by (rule exI)
    qed
    then show ?thesis using CreateNewKeyPair c
      by (cases r) (simp_all add: perform_def returning_json_def)
  next
    case Rotate
    obtain r w' where c: "rotateKeys rt env w = (r, w')"
      by (cases "rotateKeys rt env w")
    have "\<exists>v'. persisted_version rt w' v' \<and> key_files_written w' v'"
    proof (cases r)
      case (Inl e)
      from rotateKeys_Inl_frame [OF load wr c [unfolded Inl]]
      have "files w' = files w" "file_writes (trace w') = file_writes (trace w)" by simp_all
      with pv kw have "persisted_version rt w' v \<and> key_files_written w' v"
        by (rule written_frame)
      then show ?thesis by (rule exI)
    next
      case (Inr ks')
      have "persisted_version rt w' (v + 1) \<and> key_files_written w' (v + 1)"
        by (rule written_created [OF pv kw cv rotateKeys_Inr [OF load c [unfolded Inr]]])
      then show ?thesis by (rule exI)
    qed
    then show ?thesis using Rotate c
      by (cases r) (simp_all add: perform_def returning_json_def)
  qed
qed

lemma run_written:
  assumes law: "codec_round_trip rt"
  shows "persisted_version rt w v \<Longrightarrow> key_files_written w v \<Longrightarrow>
     list_all (\<lambda>(op, env). reads_succeed env \<and> writes_succeed env) ops \<Longrightarrow>
     \<exists>v'. persisted_version rt (snd (run rt ops w)) v' \<and> key_files_written (snd (run rt ops w)) v'"
proof (induction ops arbitrary: w v)
  case Nil
  then show ?case by auto
next
  case (Cons a ops)
  obtain op env where a: "a = (op, env)" by (cases a)
  from Cons.prems(3) a have rd: "reads_succeed env" and wr: "writes_succeed env"
    and rest: "list_all (\<lambda>(op, env). reads_succeed env \<and> writes_succeed env) ops"
    by simp_all
  from perform_written [OF law rd wr Cons.prems(1) Cons.prems(2), of op] obtain v1 where
    p: "persisted_version rt (snd (perform rt op env w)) v1"
    and k: "key_files_written (snd (perform rt op env w)) v1"
    by (elim exE conjE)
  have "snd (run rt (a # ops) w) = snd (run rt ops (snd (perform rt op env w)))"
    unfolding a by (simp split: prod.splits)
  with Cons.IH [OF p k rest] show ?case by simp
qed

text \<open>
  Claim C9, as the code has it. Take a run that starts with no store file and no file
  written, in which the store file is looked up and read without fault and every write
  goes through (the keys directory and the key generator may fail). Then each of the
  files \<open>private-vN.pem\<close> and \<open>public-vN.pem\<close> was written at most once.
\<close>

theorem key_files_written_once:
  assumes "codec_round_trip rt"
    and "files w KEY_STORE_FILE = None" and "file_writes (trace w) = []"
    and "list_all (\<lambda>(op, env). reads_succeed env \<and> writes_succeed env) ops"
  shows "count_list (file_writes (trace (snd (run rt ops w)))) (private_key_path N) \<le> 1 \<and>
     count_list (file_writes (trace (snd (run rt ops w)))) (public_key_path N) \<le> 1"
proof -
  have "persisted_version rt w 0" using assms(2) by (simp add: persisted_version_def)
  moreover have "key_files_written w 0" using assms(3) by (simp add: key_files_written_def)
  ultimately obtain v' where "key_files_written (snd (run rt ops w)) v'"
    using run_written [OF assms(1) _ _ assms(4)] by blast
  then show ?thesis by (simp add: key_files_written_def)
qed

lemma snd_returning_json: "snd (returning_json r) = snd r"
  by (cases r) (simp add: returning_json_def split: sum.splits)

lemma snd_run_Cons:
  "snd (run rt ((op, env) # rest) w) = snd (run rt rest (snd (perform rt op env w)))"
  by (simp split: prod.splits)

lemma snd_perform_create:
  "snd (perform rt CreateNewKeyPair env w) = snd (createNewKeyPair rt env w)"
  by (simp add: perform_def snd_returning_json)

lemma store_write_denied_simps:
  "ensureDir_fault store_write_denied = None" "exists_fault store_write_denied = None"
  "readTextFile_fault store_write_denied = None"
  "generateKey_result store_write_denied =
     Inr ([0x30, 0x2E, 0x02, 0x01, 0x00], [0x30, 0x2A, 0x30, 0x05])"
  "exportKey_fault store_write_denied f = None"
  "argument_limit store_write_denied = 65535"
  "writeTextFile_fault store_write_denied (private_key_path v) = None"
  "writeTextFile_fault store_write_denied (public_key_path v) = None"
  "writeTextFile_fault store_write_denied KEY_STORE_FILE =
     Some (Denied (Deno_error ''PermissionDenied''))"
  by (simp_all add: store_write_denied_def fair_weather_def key_paths_distinct)

lemma denied_run:
  "files (snd (createNewKeyPair stroke_codec store_write_denied initial_world)) KEY_STORE_FILE = None \<and>
   file_writes (trace (snd (createNewKeyPair stroke_codec store_write_denied initial_world))) =
     [private_key_path 1, public_key_path 1]"
proof -
  have l: "fst (loadKeyStore stroke_codec store_write_denied initial_world) =
      Inr (json_of_KeyStore empty_store)"
    by (simp add: loadKeyStore_eq initial_world_def store_write_denied_simps)
  have e: "currentVersion empty_store + 1 = 1" by (simp add: empty_store_def)
  show ?thesis
    unfolding createNewKeyPair_load [OF l] e
    by (simp add: store_write_denied_simps Let_def
        generateKeyPair_succeeds await_Inr await_Inl saveKeyFiles_def saveKeyStore_def
        writeTextFile_def console_log_simps loadKeyStore_frame file_writes_simps
        initial_world_def key_paths_distinct)
qed

text \<open>
  Claim C9 as it is stated, for every sequence of operations, fails: when the store file
  could not be written, the next \<open>createNewKeyPair\<close> takes version 1 again and writes
  \<open>private-v1.pem\<close> a second time.
\<close>

theorem key_files_written_once_counterexample:
  "file_writes (trace (snd (run stroke_codec
      [(CreateNewKeyPair, store_write_denied), (CreateNewKeyPair, fair_weather)]
      initial_world))) =
     [private_key_path 1, public_key_path 1, private_key_path 1, public_key_path 1,
      KEY_STORE_FILE] \<and>
   count_list (file_writes (trace (snd (run stroke_codec
      [(CreateNewKeyPair, store_write_denied), (CreateNewKeyPair, fair_weather)]
      initial_world)))) (private_key_path 1) = 2"
proof -
  define w1 where "w1 = snd (createNewKeyPair stroke_codec store_write_denied initial_world)"
  have f1: "files w1 KEY_STORE_FILE = None"
    and t1: "file_writes (trace w1) = [private_key_path 1, public_key_path 1]"
    using denied_run by (simp_all add: w1_def)
  have l: "fst (loadKeyStore stroke_codec fair_weather w1) = Inr (json_of_KeyStore empty_store)"
    using f1 by (simp add: loadKeyStore_eq fair_weather_simps)
  obtain ks' w2 where c: "createNewKeyPair stroke_codec fair_weather w1 = (Inr ks', w2)"
    using createNewKeyPair_succeeds [OF l fair_weather_unhindered] by (elim exE)
  have e: "currentVersion empty_store + 1 = 1" by (simp add: empty_store_def)
  from createNewKeyPair_Inr [OF l c] have t2: "file_writes (trace w2) =
      [private_key_path 1, public_key_path 1, private_key_path 1, public_key_path 1,
       KEY_STORE_FILE]"
    unfolding e t1 by auto
  have "snd (run stroke_codec
      [(CreateNewKeyPair, store_write_denied), (CreateNewKeyPair, fair_weather)]
      initial_world) = snd (createNewKeyPair stroke_codec fair_weather w1)"
    unfolding snd_run_Cons snd_perform_create w1_def by simp
  also have "\<dots> = w2" using c by simp
  finally show ?thesis
    using t2 by (simp add: key_paths_distinct)
qed

lemma fair_weather_io: "reads_succeed fair_weather \<and> writes_succeed fair_weather"
  by (simp add: reads_succeed_def writes_succeed_def fair_weather_def)

lemma no_crypto_io: "reads_succeed no_crypto \<and> writes_succeed no_crypto"
  by (simp add: reads_succeed_def writes_succeed_def no_crypto_def fair_weather_def)

section \<open>Sample runs\<close>

lemma run_Cons_eq:
  "run rt ((op, env) # rest) w =
     (fst (perform rt op env w) # fst (run rt rest (snd (perform rt op env w))),
      snd (run rt rest (snd (perform rt op env w))))"
  by (simp split: prod.splits)

lemma perform_simps:
  "perform rt LoadStore env w = loadKeyStore rt env w"
  "fst (rotateKeys rt env w) = Inr ks \<Longrightarrow> fst (perform rt Rotate env w) = Inr (json_of_KeyStore ks)"
  "fst (createNewKeyPair rt env w) = Inr ks \<Longrightarrow>
     fst (perform rt CreateNewKeyPair env w) = Inr (json_of_KeyStore ks)"
  "snd (perform rt Rotate env w) = snd (rotateKeys rt env w)"
  "snd (perform rt CreateNewKeyPair env w) = snd (createNewKeyPair rt env w)"
  by (auto simp: perform_def returning_json_def split: prod.splits sum.splits)

lemma fair_weather_create:
  assumes load: "fst (loadKeyStore rt fair_weather w) = Inr (json_of_KeyStore ks)"
  shows "fst (createNewKeyPair rt fair_weather w) =
       Inr \<lparr>currentVersion = currentVersion ks + 1,
            keys = keys ks @ [fair_weather_key (currentVersion ks + 1)]\<rparr> \<and>
     files (snd (createNewKeyPair rt fair_weather w)) KEY_STORE_FILE =
       Some (JSON_stringify rt (json_of_KeyStore
         \<lparr>currentVersion = currentVersion ks + 1,
          keys = keys ks @ [fair_weather_key (currentVersion ks + 1)]\<rparr>)) \<and>
     file_writes (trace (snd (createNewKeyPair rt fair_weather w))) =
       file_writes (trace w) @
         [private_key_path (currentVersion ks + 1), public_key_path (currentVersion ks + 1),
          KEY_STORE_FILE]"
proof -
  let ?ks' = "\<lparr>currentVersion = currentVersion ks + 1,
            keys = keys ks @ [fair_weather_key (currentVersion ks + 1)]\<rparr>"
  have e: "fst (createNewKeyPair rt fair_weather w) = Inr ?ks'"
    using createNewKeyPair_fair_weather [OF load] by (simp add: fair_weather_key_def)
  then have "createNewKeyPair rt fair_weather w = (Inr ?ks', snd (createNewKeyPair rt fair_weather w))"
    by (metis prod.collapse)
  from createNewKeyPair_Inr [OF load this] obtain priv pub where
    "files (snd (createNewKeyPair rt fair_weather w)) =
       (files w)(private_key_path (currentVersion ks + 1) \<mapsto> priv,
                 public_key_path (currentVersion ks + 1) \<mapsto> pub,
                 KEY_STORE_FILE \<mapsto> JSON_stringify rt (json_of_KeyStore ?ks'))"
    and t: "file_writes (trace (snd (createNewKeyPair rt fair_weather w))) =
       file_writes (trace w) @
         [private_key_path (currentVersion ks + 1), public_key_path (currentVersion ks + 1),
          KEY_STORE_FILE]"
    by iprover
  then have "files (snd (createNewKeyPair rt fair_weather w)) KEY_STORE_FILE =
       Some (JSON_stringify rt (json_of_KeyStore ?ks'))"
    by simp
  with e t show ?thesis by (intro conjI)
qed

lemma fair_weather_rotate:
  assumes load: "fst (loadKeyStore rt fair_weather w) = Inr (json_of_KeyStore ks)"
  shows "fst (rotateKeys rt fair_weather w) =
       Inr \<lparr>currentVersion = currentVersion ks + 1,
            keys = keys ks @ [fair_weather_key (currentVersion ks + 1)]\<rparr> \<and>
     files (snd (rotateKeys rt fair_weather w)) KEY_STORE_FILE =
       Some (JSON_stringify rt (json_of_KeyStore
         \<lparr>currentVersion = currentVersion ks + 1,
          keys = keys ks @ [fair_weather_key (currentVersion ks + 1)]\<rparr>)) \<and>
     file_writes (trace (snd (rotateKeys rt fair_weather w))) =
       file_writes (trace w) @
         [private_key_path (currentVersion ks + 1), public_key_path (currentVersion ks + 1),
          KEY_STORE_FILE]"
proof -
  let ?ks' = "\<lparr>currentVersion = currentVersion ks + 1,
            keys = keys ks @ [fair_weather_key (currentVersion ks + 1)]\<rparr>"
  have e: "fst (rotateKeys rt fair_weather w) = Inr ?ks'"
    using rotateKeys_fair_weather [OF load] by (simp add: fair_weather_key_def)
  then have "rotateKeys rt fair_weather w = (Inr ?ks', snd (rotateKeys rt fair_weather w))"
    by (metis prod.collapse)
  from rotateKeys_Inr [OF load this] obtain priv pub where
    "files (snd (rotateKeys rt fair_weather w)) =
       (files w)(private_key_path (currentVersion ks + 1) \<mapsto> priv,
                 public_key_path (currentVersion ks + 1) \<mapsto> pub,
                 KEY_STORE_FILE \<mapsto> JSON_stringify rt (json_of_KeyStore ?ks'))"
    and t: "file_writes (trace (snd (rotateKeys rt fair_weather w))) =
       file_writes (trace w) @
         [private_key_path (currentVersion ks + 1), public_key_path (currentVersion ks + 1),
          KEY_STORE_FILE]"
    by iprover
  then have "files (snd (rotateKeys rt fair_weather w)) KEY_STORE_FILE =
       Some (JSON_stringify rt (json_of_KeyStore ?ks'))"
    by simp
  with e t show ?thesis by (intro conjI)
qed

lemma stroke_codec_load:
  assumes "files w KEY_STORE_FILE = Some (JSON_stringify stroke_codec (json_of_KeyStore ks))"
  shows "loadKeyStore stroke_codec fair_weather w = (Inr (json_of_KeyStore ks), w)"
  using assms by (simp add: loadKeyStore_eq fair_weather_simps stroke_codec_parse)

lemma sample_run:
  "fst (run stroke_codec
      [(Rotate, fair_weather), (CreateNewKeyPair, fair_weather), (LoadStore, fair_weather)]
      initial_world) =
   [Inr (json_of_KeyStore \<lparr>currentVersion = 1, keys = [fair_weather_key 1]\<rparr>),
    Inr (json_of_KeyStore \<lparr>currentVersion = 2, keys = [fair_weather_key 1, fair_weather_key 2]\<rparr>),
    Inr (json_of_KeyStore \<lparr>currentVersion = 2, keys = [fair_weather_key 1, fair_weather_key 2]\<rparr>)]"
proof -
  define w1 where "w1 = snd (rotateKeys stroke_codec fair_weather initial_world)"
  define w2 where "w2 = snd (createNewKeyPair stroke_codec fair_weather w1)"
  let ?s1 = "\<lparr>currentVersion = 1, keys = [fair_weather_key 1]\<rparr>"
  let ?s2 = "\<lparr>currentVersion = 2, keys = [fair_weather_key 1, fair_weather_key 2]\<rparr>"
  from fair_weather_rotate [OF initial_world_load, of stroke_codec]
  have r1: "fst (rotateKeys stroke_codec fair_weather initial_world) = Inr ?s1"
    and f1: "files w1 KEY_STORE_FILE = Some (JSON_stringify stroke_codec (json_of_KeyStore ?s1))"
    by (simp_all add: empty_store_def w1_def)
  have l1: "fst (loadKeyStore stroke_codec fair_weather w1) = Inr (json_of_KeyStore ?s1)"
    using stroke_codec_load [OF f1] by simp
  from fair_weather_create [OF l1]
  have r2: "fst (createNewKeyPair stroke_codec fair_weather w1) = Inr ?s2"
    and f2: "files w2 KEY_STORE_FILE = Some (JSON_stringify stroke_codec (json_of_KeyStore ?s2))"
    by (simp_all add: w2_def)
  have l2: "loadKeyStore stroke_codec fair_weather w2 = (Inr (json_of_KeyStore ?s2), w2)"
    using f2 by (rule stroke_codec_load)
  show ?thesis
    unfolding run_Cons_eq perform_simps(4,5) perform_simps(1)
    unfolding w1_def [symmetric] w2_def [symmetric]
    using r1 r2 l2 by (simp add: perform_simps(2,3) w1_def)
qed

theorem store_invariant_preserved_witness:
  "codec_round_trip stroke_codec \<and> persisted_invariant stroke_codec initial_world \<and>
   fst (run stroke_codec
      [(Rotate, fair_weather), (CreateNewKeyPair, fair_weather), (LoadStore, fair_weather)]
      initial_world) =
     [Inr (json_of_KeyStore \<lparr>currentVersion = 1, keys = [fair_weather_key 1]\<rparr>),
      Inr (json_of_KeyStore \<lparr>currentVersion = 2, keys = [fair_weather_key 1, fair_weather_key 2]\<rparr>),
      Inr (json_of_KeyStore \<lparr>currentVersion = 2, keys = [fair_weather_key 1, fair_weather_key 2]\<rparr>)] \<and>
   list_all succeeded
     (fst (run stroke_codec
        [(Rotate, fair_weather), (CreateNewKeyPair, fair_weather), (LoadStore, fair_weather)]
        initial_world)) \<and>
   list_all returned_invariant
     (fst (run stroke_codec
        [(Rotate, fair_weather), (CreateNewKeyPair, fair_weather), (LoadStore, fair_weather)]
        initial_world)) \<and>
   persisted_invariant stroke_codec
     (snd (run stroke_codec
        [(Rotate, fair_weather), (CreateNewKeyPair, fair_weather), (LoadStore, fair_weather)]
        initial_world))"
proof -
  let ?ops = "[(Rotate, fair_weather), (CreateNewKeyPair, fair_weather), (LoadStore, fair_weather)]"
  have s: "list_all succeeded (fst (run stroke_codec ?ops initial_world))"
    unfolding sample_run by (simp add: succeeded_def)
  have r: "run stroke_codec ?ops initial_world =
      (fst (run stroke_codec ?ops initial_world), snd (run stroke_codec ?ops initial_world))"
    by simp
  from store_invariant_preserved [OF stroke_codec_round_trip initial_world_invariant r s]
  have i: "list_all returned_invariant (fst (run stroke_codec ?ops initial_world))"
    and p: "persisted_invariant stroke_codec (snd (run stroke_codec ?ops initial_world))"
    by (rule conjunct1, rule conjunct2)
  show ?thesis
    by (intro conjI) (rule stroke_codec_round_trip initial_world_invariant sample_run s i p)+
qed

lemma no_crypto_create:
  assumes load: "fst (loadKeyStore rt no_crypto w) = Inr (json_of_KeyStore ks)"
  shows "files (snd (createNewKeyPair rt no_crypto w)) = files w \<and>
     file_writes (trace (snd (createNewKeyPair rt no_crypto w))) = file_writes (trace w)"
proof -
  have "crypto_rejects no_crypto (DOMException ''NotSupportedError'')"
    by (simp add: crypto_rejects_def no_crypto_def)
  from createNewKeyPair_rejects [OF load this] show ?thesis by auto
qed

lemma sample_run_writes:
  "file_writes (trace (snd (run stroke_codec
       [(Rotate, fair_weather), (CreateNewKeyPair, no_crypto), (Rotate, fair_weather)]
       initial_world))) =
     [private_key_path 1, public_key_path 1, KEY_STORE_FILE,
      private_key_path 2, public_key_path 2, KEY_STORE_FILE]"
proof -
  define w1 where "w1 = snd (rotateKeys stroke_codec fair_weather initial_world)"
  define w2 where "w2 = snd (createNewKeyPair stroke_codec no_crypto w1)"
  let ?s1 = "\<lparr>currentVersion = 1, keys = [fair_weather_key 1]\<rparr>"
  have t0: "file_writes (trace initial_world) = []"
    by (simp add: initial_world_def file_writes_simps)
  from fair_weather_rotate [OF initial_world_load, of stroke_codec]
  have f1: "files w1 KEY_STORE_FILE = Some (JSON_stringify stroke_codec (json_of_KeyStore ?s1))"
    and t1: "file_writes (trace w1) = [private_key_path 1, public_key_path 1, KEY_STORE_FILE]"
    by (simp_all add: empty_store_def w1_def t0)
  have "fst (loadKeyStore stroke_codec no_crypto w1) = Inr (json_of_KeyStore ?s1)"
    using f1 by (simp add: loadKeyStore_eq no_crypto_def fair_weather_simps stroke_codec_parse)
  from no_crypto_create [OF this]
  have f2: "files w2 KEY_STORE_FILE = Some (JSON_stringify stroke_codec (json_of_KeyStore ?s1))"
    and t2: "file_writes (trace w2) = [private_key_path 1, public_key_path 1, KEY_STORE_FILE]"
    using f1 t1 by (simp_all add: w2_def)
  have "fst (loadKeyStore stroke_codec fair_weather w2) = Inr (json_of_KeyStore ?s1)"
    using stroke_codec_load [OF f2] by simp
  from fair_weather_rotate [OF this]
  have "file_writes (trace (snd (rotateKeys stroke_codec fair_weather w2))) =
     [private_key_path 1, public_key_path 1, KEY_STORE_FILE,
      private_key_path 2, public_key_path 2, KEY_STORE_FILE]"
    by (simp add: t2)
  then show ?thesis
    unfolding run_Cons_eq perform_simps(4,5)
    unfolding w1_def [symmetric] w2_def [symmetric]
    by simp
qed

theorem key_files_written_once_witness:
  "codec_round_trip stroke_codec \<and> files initial_world KEY_STORE_FILE = None \<and>
   file_writes (trace initial_world) = [] \<and>
   list_all (\<lambda>(op, env). reads_succeed env \<and> writes_succeed env)
     [(Rotate, fair_weather), (CreateNewKeyPair, no_crypto), (Rotate, fair_weather)] \<and>
   file_writes (trace (snd (run stroke_codec
       [(Rotate, fair_weather), (CreateNewKeyPair, no_crypto), (Rotate, fair_weather)]
       initial_world))) =
     [private_key_path 1, public_key_path 1, KEY_STORE_FILE,
      private_key_path 2, public_key_path 2, KEY_STORE_FILE] \<and>
   count_list (file_writes (trace (snd (run stroke_codec
       [(Rotate, fair_weather), (CreateNewKeyPair, no_crypto), (Rotate, fair_weather)]
       initial_world)))) (private_key_path 1) \<le> 1 \<and>
   count_list (file_writes (trace (snd (run stroke_codec
       [(Rotate, fair_weather), (CreateNewKeyPair, no_crypto), (Rotate, fair_weather)]
       initial_world)))) (public_key_path 1) \<le> 1"
proof -
  have a: "files initial_world KEY_STORE_FILE = None" by (simp add: initial_world_def)
  have b: "file_writes (trace initial_world) = []"
    by (simp add: initial_world_def file_writes_simps)
  have c: "list_all (\<lambda>(op, env). reads_succeed env \<and> writes_succeed env)
     [(Rotate, fair_weather), (CreateNewKeyPair, no_crypto), (Rotate, fair_weather)]"
    using fair_weather_io no_crypto_io by simp
  note k = key_files_written_once [OF stroke_codec_round_trip a b c, of 1]
  show ?thesis
    by (intro conjI)
       (rule stroke_codec_round_trip a b c sample_run_writes k [THEN conjunct1]
          k [THEN conjunct2])+
qed

section \<open>Further properties\<close>

text \<open>
  A further property of \<open>saveKeyFiles\<close>: the file names tell the versions apart. Two
  versions have the same private (or public) key file only when they are the same
  version, and no key file is the file of another kind or the store file.
\<close>

theorem key_file_paths_injective:
  "(private_key_path a = private_key_path b \<longleftrightarrow> a = b) \<and>
   (public_key_path a = public_key_path b \<longleftrightarrow> a = b) \<and>
   private_key_path a \<noteq> public_key_path b \<and>
   private_key_path a \<noteq> KEY_STORE_FILE \<and>
   public_key_path a \<noteq> KEY_STORE_FILE"
  by (simp add: private_key_path_inj public_key_path_inj key_paths_distinct)

text \<open>
  A further property, the scenario of three rotations: starting with no store file and
  in fair weather, three calls of \<open>rotateKeys\<close> return stores with the versions \<open>[1]\<close>,
  \<open>[1, 2]\<close> and \<open>[1, 2, 3]\<close>, and write the three pairs of key files, each pair followed by
  the store file.
\<close>

theorem three_rotations:
  "fst (run stroke_codec
      [(Rotate, fair_weather), (Rotate, fair_weather), (Rotate, fair_weather)]
      initial_world) =
     [Inr (json_of_KeyStore \<lparr>currentVersion = 1, keys = [fair_weather_key 1]\<rparr>),
      Inr (json_of_KeyStore \<lparr>currentVersion = 2, keys = [fair_weather_key 1, fair_weather_key 2]\<rparr>),
      Inr (json_of_KeyStore \<lparr>currentVersion = 3,
             keys = [fair_weather_key 1, fair_weather_key 2, fair_weather_key 3]\<rparr>)] \<and>
   file_writes (trace (snd (run stroke_codec
      [(Rotate, fair_weather), (Rotate, fair_weather), (Rotate, fair_weather)]
      initial_world))) =
     [private_key_path 1, public_key_path 1, KEY_STORE_FILE,
      private_key_path 2, public_key_path 2, KEY_STORE_FILE,
      private_key_path 3, public_key_path 3, KEY_STORE_FILE]"
proof -
  define w1 where "w1 = snd (rotateKeys stroke_codec fair_weather initial_world)"
  define w2 where "w2 = snd (rotateKeys stroke_codec fair_weather w1)"
  define w3 where "w3 = snd (rotateKeys stroke_codec fair_weather w2)"
  let ?s1 = "\<lparr>currentVersion = 1, keys = [fair_weather_key 1]\<rparr>"
  let ?s2 = "\<lparr>currentVersion = 2, keys = [fair_weather_key 1, fair_weather_key 2]\<rparr>"
  let ?s3 = "\<lparr>currentVersion = 3,
             keys = [fair_weather_key 1, fair_weather_key 2, fair_weather_key 3]\<rparr>"
  have t0: "file_writes (trace initial_world) = []"
    by (simp add: initial_world_def file_writes_simps)
  from fair_weather_rotate [OF initial_world_load, of stroke_codec]
  have r1: "fst (rotateKeys stroke_codec fair_weather initial_world) = Inr ?s1"
    and f1: "files w1 KEY_STORE_FILE = Some (JSON_stringify stroke_codec (json_of_KeyStore ?s1))"
    and t1: "file_writes (trace w1) = [private_key_path 1, public_key_path 1, KEY_STORE_FILE]"
    by (simp_all add: empty_store_def w1_def t0)
  have "fst (loadKeyStore stroke_codec fair_weather w1) = Inr (json_of_KeyStore ?s1)"
    using stroke_codec_load [OF f1] by simp
  from fair_weather_rotate [OF this]
  have r2: "fst (rotateKeys stroke_codec fair_weather w1) = Inr ?s2"
    and f2: "files w2 KEY_STORE_FILE = Some (JSON_stringify stroke_codec (json_of_KeyStore ?s2))"
    and t2: "file_writes (trace w2) = [private_key_path 1, public_key_path 1, KEY_STORE_FILE,
      private_key_path 2, public_key_path 2, KEY_STORE_FILE]"
    by (simp_all add: w2_def t1)
  have "fst (loadKeyStore stroke_codec fair_weather w2) = Inr (json_of_KeyStore ?s2)"
    using stroke_codec_load [OF f2] by simp
  from fair_weather_rotate [OF this]
  have r3: "fst (rotateKeys stroke_codec fair_weather w2) = Inr ?s3"
    and t3: "file_writes (trace w3) = [private_key_path 1, public_key_path 1, KEY_STORE_FILE,
      private_key_path 2, public_key_path 2, KEY_STORE_FILE,
      private_key_path 3, public_key_path 3, KEY_STORE_FILE]"
    by (simp_all add: w3_def t2)
  show ?thesis
    unfolding run_Cons_eq perform_simps(4,5)
    unfolding w1_def [symmetric] w2_def [symmetric] w3_def [symmetric]
    using r1 r2 r3 t3 by (simp add: perform_simps(2,3) w1_def w2_def)
qed

end
